theory Spec2Isabelle
  imports Complex_Main "HOL-Library.Word" "HOL-Library.Multiset" "HOL-Library.Monad_Syntax"
begin

section \<open>Machine integers\<close>

text \<open>
  The kernels run on the Snitch cluster (\<^verbatim>\<open>snrt.h\<close>), whose cores are RV32: \<^verbatim>\<open>size_t\<close> and
  \<^verbatim>\<open>unsigned\<close> are both 32 bits wide, and their arithmetic wraps around.
\<close>

type_synonym size_t = "32 word"

section \<open>Work partition (sin.c, \<^verbatim>\<open>sin_parallel\<close>, \<^verbatim>\<open>sin_ssr_parallel\<close>, \<^verbatim>\<open>sin_ssr_omp\<close>)\<close>

text \<open>
  The three partitioned kernels start with the same statements:
  \<^verbatim>\<open>
    size_t local_n = n / core_num;
    int do_extra = 0;
    if (core_idx < n - local_n * core_num) { do_extra = 1; }
  \<close>
  use \<^verbatim>\<open>core_idx * local_n + i\<close> (or the pointer \<^verbatim>\<open>arr + core_idx * local_n\<close>) for the
  local block, and \<^verbatim>\<open>core_num * local_n + core_idx\<close> for the extra element.
  \<^verbatim>\<open>core_num\<close> is \<^verbatim>\<open>snrt_cluster_core_num() - 1\<close>, the number of compute cores, and
  \<^verbatim>\<open>core_idx\<close> is \<^verbatim>\<open>snrt_cluster_core_idx()\<close>; both come from the platform and are
  parameters here.
\<close>

definition local_n_of :: "size_t \<Rightarrow> size_t \<Rightarrow> size_t" where
  "local_n_of n core_num = n div core_num"

definition do_extra_of :: "size_t \<Rightarrow> size_t \<Rightarrow> size_t \<Rightarrow> bool" where
  "do_extra_of n core_num core_idx =
     (let local_n = local_n_of n core_num in core_idx < n - local_n * core_num)"

definition local_index :: "size_t \<Rightarrow> size_t \<Rightarrow> size_t \<Rightarrow> size_t" where
  "local_index core_idx local_n i = core_idx * local_n + i"

definition extra_index_of :: "size_t \<Rightarrow> size_t \<Rightarrow> size_t \<Rightarrow> size_t" where
  "extra_index_of n core_num core_idx =
     (let local_n = local_n_of n core_num in core_num * local_n + core_idx)"

record partition_result =
  local_length :: size_t
  local_offset :: size_t
  has_extra_element :: bool
  extra_index :: size_t

definition partition :: "size_t \<Rightarrow> size_t \<Rightarrow> size_t \<Rightarrow> partition_result" where
  "partition n core_num core_idx =
     \<lparr> local_length = local_n_of n core_num,
       local_offset = local_index core_idx (local_n_of n core_num) 0,
       has_extra_element = do_extra_of n core_num core_idx,
       extra_index = extra_index_of n core_num core_idx \<rparr>"

text \<open>
  The flat indices one core touches, in the order the kernel touches them: the local
  block \<^verbatim>\<open>core_idx * local_n + i\<close> for \<^verbatim>\<open>i = 0 .. local_n - 1\<close>, then the extra element
  when \<^verbatim>\<open>do_extra\<close> is set.
\<close>

definition core_indices :: "size_t \<Rightarrow> size_t \<Rightarrow> size_t \<Rightarrow> size_t list" where
  "core_indices n core_num core_idx =
     (let local_n = local_n_of n core_num in
      map (\<lambda>i. local_index core_idx local_n (of_nat i)) [0 ..< unat local_n]
      @ (if do_extra_of n core_num core_idx then [extra_index_of n core_num core_idx] else []))"

text \<open>The indices of all cores \<^verbatim>\<open>0 .. core_num - 1\<close> of the group, as natural numbers.\<close>

definition all_core_indices :: "size_t \<Rightarrow> size_t \<Rightarrow> nat list" where
  "all_core_indices n core_num =
     concat (map (\<lambda>c. map unat (core_indices n core_num (of_nat c))) [0 ..< unat core_num])"


section \<open>Floating-point values\<close>

text \<open>
  A \<^verbatim>\<open>float\<close> or \<^verbatim>\<open>double\<close> is a finite number, an infinity or a NaN. What an operation on
  finite operands returns is the exact result rounded to the format; the rounding
  function is a parameter \<open>rnd\<close> of every operation (it may return an infinity when the
  exact result is out of range), so nothing below depends on how a format rounds. The
  special cases are those of IEEE 754, which the RISC-V F and D extensions implement
  (\<^verbatim>\<open>fneg.d\<close>, \<^verbatim>\<open>fadd.d\<close>, \<^verbatim>\<open>fdiv.d\<close>) and the compiler uses for \<^verbatim>\<open>*\<close> and \<^verbatim>\<open>/\<close>. The sign of a
  zero is not represented: a zero divisor counts as positive.
\<close>

datatype fval = Fin real | PInf | NInf | NaN

fun fneg :: "fval \<Rightarrow> fval" where
  "fneg (Fin x) = Fin (- x)"
| "fneg PInf = NInf"
| "fneg NInf = PInf"
| "fneg NaN = NaN"

fun fadd :: "(real \<Rightarrow> fval) \<Rightarrow> fval \<Rightarrow> fval \<Rightarrow> fval" where
  "fadd rnd (Fin x) (Fin y) = rnd (x + y)"
| "fadd rnd NaN b = NaN"
| "fadd rnd a NaN = NaN"
| "fadd rnd PInf NInf = NaN"
| "fadd rnd NInf PInf = NaN"
| "fadd rnd (Fin x) b = b"
| "fadd rnd a b = a"

fun fmul :: "(real \<Rightarrow> fval) \<Rightarrow> fval \<Rightarrow> fval \<Rightarrow> fval" where
  "fmul rnd (Fin x) (Fin y) = rnd (x * y)"
| "fmul rnd NaN b = NaN"
| "fmul rnd a NaN = NaN"
| "fmul rnd (Fin x) b = (if x = 0 then NaN else if 0 < x then b else fneg b)"
| "fmul rnd a (Fin y) = (if y = 0 then NaN else if 0 < y then a else fneg a)"
| "fmul rnd a b = (if a = b then PInf else NInf)"

fun fdiv :: "(real \<Rightarrow> fval) \<Rightarrow> fval \<Rightarrow> fval \<Rightarrow> fval" where
  "fdiv rnd (Fin x) (Fin y) =
     (if y = 0 then (if x = 0 then NaN else if 0 < x then PInf else NInf) else rnd (x / y))"
| "fdiv rnd NaN b = NaN"
| "fdiv rnd a NaN = NaN"
| "fdiv rnd (Fin x) b = Fin 0"
| "fdiv rnd a (Fin y) = (if 0 \<le> y then a else fneg a)"
| "fdiv rnd a b = NaN"

text \<open>Conversion of a \<^verbatim>\<open>double\<close> to \<^verbatim>\<open>float\<close> (the initialisation of \<^verbatim>\<open>float factor\<close>).\<close>

fun double_to_float :: "(real \<Rightarrow> fval) \<Rightarrow> fval \<Rightarrow> fval" where
  "double_to_float rnd_s (Fin x) = rnd_s x"
| "double_to_float rnd_s a = a"

text \<open>Conversion of a \<^verbatim>\<open>size_t\<close> to \<^verbatim>\<open>double\<close>: every 32-bit value is representable.\<close>

definition size_to_double :: "size_t \<Rightarrow> fval" where
  "size_to_double k = Fin (real (unat k))"

text \<open>
  The cast \<^verbatim>\<open>(int) x\<close> of a \<^verbatim>\<open>float\<close>: the value truncated towards zero; undefined in C
  (here \<open>None\<close>) for a NaN, an infinity, or a value whose truncation is not an \<^verbatim>\<open>int\<close>.
\<close>

definition truncate_real :: "real \<Rightarrow> int" where
  "truncate_real x = (if 0 \<le> x then \<lfloor>x\<rfloor> else \<lceil>x\<rceil>)"

fun float_to_int :: "fval \<Rightarrow> int option" where
  "float_to_int (Fin x) =
     (let t = truncate_real x in if - (2 ^ 31) \<le> t \<and> t < 2 ^ 31 then Some t else None)"
| "float_to_int a = None"

definition M_PI :: real where
  "M_PI = 3.14159265358979323846"

section \<open>The machine: two buffers, the stream registers, the registers the kernels name\<close>

text \<open>
  One data mover of the stream engine, as the Snitch runtime configures it:
  \<^verbatim>\<open>snrt_ssr_loop_1d(dm, b0, s0)\<close> sets the number of elements and the stride in bytes,
  \<^verbatim>\<open>snrt_ssr_repeat(dm, count)\<close> the repetition count, \<^verbatim>\<open>snrt_ssr_read\<close> and
  \<^verbatim>\<open>snrt_ssr_write\<close> the direction and the pointer, which restarts the address generator.
  Every call of this repository passes the element size as stride and 1 as repetition
  count (\<^verbatim>\<open>sin_ssr_parallel\<close> leaves the count alone), so the k-th transfer after
  the pointer was set addresses element k after it; \<open>dm_pos\<close> counts these transfers.
  Pointers are element offsets into the buffer they point into (\<^verbatim>\<open>arr\<close> for the reading
  mover, \<^verbatim>\<open>result\<close> for the writing one).
\<close>

record data_mover =
  dm_bound :: size_t
  dm_stride :: size_t
  dm_repeat :: size_t
  dm_write :: bool
  dm_base :: size_t
  dm_pos :: size_t

datatype snrt_ssr_dm = SNRT_SSR_DM0 | SNRT_SSR_DM1

record 'f machine =
  arr_mem :: "'f list"
  result_mem :: "'f list"
  ssr_on :: bool
  dm0 :: data_mover
  dm1 :: data_mover
  fa0 :: 'f
  ft0 :: 'f
  ft1 :: 'f
  ft2 :: 'f

fun get_dm :: "snrt_ssr_dm \<Rightarrow> 'f machine \<Rightarrow> data_mover" where
  "get_dm SNRT_SSR_DM0 m = dm0 m"
| "get_dm SNRT_SSR_DM1 m = dm1 m"

fun set_dm :: "snrt_ssr_dm \<Rightarrow> data_mover \<Rightarrow> 'f machine \<Rightarrow> 'f machine" where
  "set_dm SNRT_SSR_DM0 d m = m\<lparr>dm0 := d\<rparr>"
| "set_dm SNRT_SSR_DM1 d m = m\<lparr>dm1 := d\<rparr>"

definition snrt_ssr_loop_1d :: "snrt_ssr_dm \<Rightarrow> size_t \<Rightarrow> size_t \<Rightarrow> 'f machine \<Rightarrow> 'f machine" where
  "snrt_ssr_loop_1d dm b0 s0 m = set_dm dm ((get_dm dm m)\<lparr>dm_bound := b0, dm_stride := s0\<rparr>) m"

definition snrt_ssr_repeat :: "snrt_ssr_dm \<Rightarrow> size_t \<Rightarrow> 'f machine \<Rightarrow> 'f machine" where
  "snrt_ssr_repeat dm rep m = set_dm dm ((get_dm dm m)\<lparr>dm_repeat := rep\<rparr>) m"

definition snrt_ssr_read :: "snrt_ssr_dm \<Rightarrow> size_t \<Rightarrow> 'f machine \<Rightarrow> 'f machine" where
  "snrt_ssr_read dm ptr m =
     set_dm dm ((get_dm dm m)\<lparr>dm_write := False, dm_base := ptr, dm_pos := 0\<rparr>) m"

definition snrt_ssr_write :: "snrt_ssr_dm \<Rightarrow> size_t \<Rightarrow> 'f machine \<Rightarrow> 'f machine" where
  "snrt_ssr_write dm ptr m =
     set_dm dm ((get_dm dm m)\<lparr>dm_write := True, dm_base := ptr, dm_pos := 0\<rparr>) m"

definition snrt_ssr_enable :: "'f machine \<Rightarrow> 'f machine" where
  "snrt_ssr_enable m = m\<lparr>ssr_on := True\<rparr>"

definition snrt_ssr_disable :: "'f machine \<Rightarrow> 'f machine" where
  "snrt_ssr_disable m = m\<lparr>ssr_on := False\<rparr>"

text \<open>
  Reading \<^verbatim>\<open>ft0\<close> while streaming is enabled consumes the next element of data mover 0;
  writing \<^verbatim>\<open>ft1\<close> produces the next element of data mover 1. A transfer beyond the
  configured bound, through a mover of the wrong direction, or outside the buffer has no
  defined result (\<open>None\<close>). With streaming disabled both are ordinary registers.
\<close>

definition read_ft0 :: "'f machine \<Rightarrow> ('f \<times> 'f machine) option" where
  "read_ft0 m =
     (if ssr_on m then
        (let d = dm0 m; k = unat (dm_base d + dm_pos d) in
         if \<not> dm_write d \<and> dm_pos d < dm_bound d \<and> k < length (arr_mem m)
         then Some (arr_mem m ! k, m\<lparr>dm0 := d\<lparr>dm_pos := dm_pos d + 1\<rparr>\<rparr>)
         else None)
      else Some (ft0 m, m))"

definition write_ft1 :: "'f \<Rightarrow> 'f machine \<Rightarrow> 'f machine option" where
  "write_ft1 v m =
     (if ssr_on m then
        (let d = dm1 m; k = unat (dm_base d + dm_pos d) in
         if dm_write d \<and> dm_pos d < dm_bound d \<and> k < length (result_mem m)
         then Some (m\<lparr>result_mem := (result_mem m)[k := v], dm1 := d\<lparr>dm_pos := dm_pos d + 1\<rparr>\<rparr>)
         else None)
      else Some (m\<lparr>ft1 := v\<rparr>))"

text \<open>\<^verbatim>\<open>arr[k]\<close> and \<^verbatim>\<open>result[k] = v\<close> in C; an access outside the buffer is undefined.\<close>

definition load_arr :: "size_t \<Rightarrow> 'f machine \<Rightarrow> 'f option" where
  "load_arr k m = (if unat k < length (arr_mem m) then Some (arr_mem m ! unat k) else None)"

definition store_result :: "size_t \<Rightarrow> 'f \<Rightarrow> 'f machine \<Rightarrow> 'f machine option" where
  "store_result k v m =
     (if unat k < length (result_mem m)
      then Some (m\<lparr>result_mem := (result_mem m)[unat k := v]\<rparr>) else None)"

text \<open>
  \<^verbatim>\<open>call f\<close> with the argument and the result in \<^verbatim>\<open>fa0\<close>. The callee is a library routine
  (\<^verbatim>\<open>sinf\<close>, \<^verbatim>\<open>exp\<close>) and a parameter of every kernel.
\<close>

definition call :: "('f \<Rightarrow> 'f) \<Rightarrow> 'f machine \<Rightarrow> 'f machine" where
  "call f m = m\<lparr>fa0 := f (fa0 m)\<rparr>"

text \<open>
  What a kernel hands back: the value of its \<^verbatim>\<open>return\<close> statement, or nothing when
  control reaches the closing brace of the function without one.
\<close>

datatype status = Return int | NoReturnValue

text \<open>\<^verbatim>\<open>for (i = start; i < n; i++) body\<close> with a 32-bit counter.\<close>

function for_loop :: "size_t \<Rightarrow> size_t \<Rightarrow> (size_t \<Rightarrow> 's \<Rightarrow> 's option) \<Rightarrow> 's \<Rightarrow> 's option" where
  "for_loop i n body s =
     (if i < n then (case body i s of None \<Rightarrow> None | Some s' \<Rightarrow> for_loop (i + 1) n body s')
      else Some s)"
  by pat_completeness auto
termination
proof (relation "measure (\<lambda>(i, n, body, s). unat n - unat i)")
  show "wf (measure (\<lambda>(i, n, body, s). unat n - unat i))" by simp
next
  fix i n :: size_t and body :: "size_t \<Rightarrow> 's \<Rightarrow> 's option" and s x2 :: 's
  assume "i < n"
  then have lt: "unat i < unat n" by (simp add: word_less_nat_alt)
  have "unat n < 2 ^ LENGTH(32)" by (rule unsigned_less)
  with lt have "unat i + unat (1 :: size_t) < 2 ^ LENGTH(32)" by simp
  then have "unat (i + 1) = unat i + unat (1 :: size_t)" by (rule unat_add_lem [THEN iffD1])
  with lt show "((i + 1, n, body, x2), (i, n, body, s)) \<in> measure (\<lambda>(i, n, body, s). unat n - unat i)"
    by simp
qed


section \<open>The sine kernels (sin.c)\<close>

text \<open>
  Every kernel takes \<^verbatim>\<open>sinf\<close> (the library routine), \<^verbatim>\<open>n\<close>, and the machine holding \<^verbatim>\<open>arr\<close> and
  \<^verbatim>\<open>result\<close>; it returns the machine after the call and the status, or \<open>None\<close> when the
  call has undefined behaviour.
\<close>

definition sin_baseline :: "('f \<Rightarrow> 'f) \<Rightarrow> size_t \<Rightarrow> 'f machine \<Rightarrow> ('f machine \<times> status) option" where
  "sin_baseline sinf n m =
     do {
       m \<leftarrow> for_loop 0 n (\<lambda>i m. do { x \<leftarrow> load_arr i m; store_result i (sinf x) m }) m;
       Some (m, Return 0)
     }"

text \<open>
  The body of the streaming loops: \<^verbatim>\<open>fmv.s fa0, ft0\<close>, streaming off, \<^verbatim>\<open>call sinf\<close>, streaming
  on, \<^verbatim>\<open>fmv.s ft1, fa0\<close>.
\<close>

definition sin_ssr_body :: "('f \<Rightarrow> 'f) \<Rightarrow> 'f machine \<Rightarrow> 'f machine option" where
  "sin_ssr_body sinf m =
     do {
       (x, m) \<leftarrow> read_ft0 m;
       let m = m\<lparr>fa0 := x\<rparr>;
       let m = snrt_ssr_disable m;
       let m = call sinf m;
       let m = snrt_ssr_enable m;
       write_ft1 (fa0 m) m
     }"

definition sin_ssr :: "('f \<Rightarrow> 'f) \<Rightarrow> size_t \<Rightarrow> 'f machine \<Rightarrow> ('f machine \<times> status) option" where
  "sin_ssr sinf n m =
     do {
       let m = snrt_ssr_loop_1d SNRT_SSR_DM0 n 4 m;
       let m = snrt_ssr_repeat SNRT_SSR_DM0 1 m;
       let m = snrt_ssr_read SNRT_SSR_DM0 0 m;
       let m = snrt_ssr_loop_1d SNRT_SSR_DM1 n 4 m;
       let m = snrt_ssr_repeat SNRT_SSR_DM1 1 m;
       let m = snrt_ssr_write SNRT_SSR_DM1 0 m;
       let m = snrt_ssr_enable m;
       m \<leftarrow> for_loop 0 n (\<lambda>i. sin_ssr_body sinf) m;
       let m = snrt_ssr_disable m;
       Some (m, Return 0)
     }"

definition sin_ssr_frep :: "('f \<Rightarrow> 'f) \<Rightarrow> size_t \<Rightarrow> 'f machine \<Rightarrow> ('f machine \<times> status) option" where
  "sin_ssr_frep sinf n m =
     do {
       (m, r) \<leftarrow> sin_ssr sinf n m;
       Some (m, Return 0)
     }"

text \<open>
  The partitioned kernels run on every core of the group; \<^verbatim>\<open>core_num\<close> and \<^verbatim>\<open>core_idx\<close> are
  what the platform answers on that core. The division \<^verbatim>\<open>n / core_num\<close> is undefined for
  \<^verbatim>\<open>core_num = 0\<close>.
\<close>

text \<open>
  The last statement of the three partitioned kernels:
  \<^verbatim>\<open>if (do_extra) result[core_num * local_n + core_idx] = sinf(arr[core_num * local_n + core_idx]);\<close>
\<close>

definition sin_extra :: "('f \<Rightarrow> 'f) \<Rightarrow> size_t \<Rightarrow> size_t \<Rightarrow> size_t \<Rightarrow> 'f machine \<Rightarrow> 'f machine option" where
  "sin_extra sinf n core_num core_idx m =
     (if do_extra_of n core_num core_idx
      then do {
             x \<leftarrow> load_arr (extra_index_of n core_num core_idx) m;
             store_result (extra_index_of n core_num core_idx) (sinf x) m
           }
      else Some m)"

definition sin_parallel ::
  "('f \<Rightarrow> 'f) \<Rightarrow> size_t \<Rightarrow> size_t \<Rightarrow> size_t \<Rightarrow> 'f machine \<Rightarrow> ('f machine \<times> status) option" where
  "sin_parallel sinf n core_num core_idx m =
     (if core_num = 0 then None
      else do {
        let local_n = local_n_of n core_num;
        m \<leftarrow> for_loop 0 local_n
               (\<lambda>i m. do {
                  x \<leftarrow> load_arr (local_index core_idx local_n i) m;
                  store_result (local_index core_idx local_n i) (sinf x) m
                }) m;
        m \<leftarrow> sin_extra sinf n core_num core_idx m;
        Some (m, Return 0)
      })"

definition sin_ssr_parallel ::
  "('f \<Rightarrow> 'f) \<Rightarrow> size_t \<Rightarrow> size_t \<Rightarrow> size_t \<Rightarrow> 'f machine \<Rightarrow> ('f machine \<times> status) option" where
  "sin_ssr_parallel sinf n core_num core_idx m =
     (if core_num = 0 then None
      else do {
        let local_n = local_n_of n core_num;
        let m = snrt_ssr_loop_1d SNRT_SSR_DM0 local_n 4 m;
        let m = snrt_ssr_read SNRT_SSR_DM0 (core_idx * local_n) m;
        let m = snrt_ssr_loop_1d SNRT_SSR_DM1 local_n 4 m;
        let m = snrt_ssr_write SNRT_SSR_DM1 (core_idx * local_n) m;
        let m = snrt_ssr_enable m;
        m \<leftarrow> for_loop 0 local_n (\<lambda>i. sin_ssr_body sinf) m;
        let m = snrt_ssr_disable m;
        m \<leftarrow> sin_extra sinf n core_num core_idx m;
        Some (m, Return 0)
      })"

text \<open>
  \<^verbatim>\<open>sin_ssr_omp\<close>: the body of the \<^verbatim>\<open>#pragma omp parallel\<close> region, run by every core of the
  team. The writing mover is configured with \<^verbatim>\<open>local_n + 1\<close> elements.
\<close>

definition sin_ssr_omp ::
  "('f \<Rightarrow> 'f) \<Rightarrow> size_t \<Rightarrow> size_t \<Rightarrow> size_t \<Rightarrow> 'f machine \<Rightarrow> ('f machine \<times> status) option" where
  "sin_ssr_omp sinf n core_num core_idx m =
     (if core_num = 0 then None
      else do {
        let local_n = local_n_of n core_num;
        let m = snrt_ssr_loop_1d SNRT_SSR_DM0 local_n 4 m;
        let m = snrt_ssr_repeat SNRT_SSR_DM0 1 m;
        let m = snrt_ssr_read SNRT_SSR_DM0 (core_idx * local_n) m;
        let m = snrt_ssr_loop_1d SNRT_SSR_DM1 (local_n + 1) 4 m;
        let m = snrt_ssr_repeat SNRT_SSR_DM1 1 m;
        let m = snrt_ssr_write SNRT_SSR_DM1 (core_idx * local_n) m;
        let m = snrt_ssr_enable m;
        m \<leftarrow> for_loop 0 local_n (\<lambda>i. sin_ssr_body sinf) m;
        let m = snrt_ssr_disable m;
        m \<leftarrow> sin_extra sinf n core_num core_idx m;
        Some (m, Return 0)
      })"

text \<open>
  \<^verbatim>\<open>sin_omp\<close>: the iterations of the \<^verbatim>\<open>parallel for\<close> are independent, and the OpenMP runtime
  hands each of them to one thread of the team; they are run in index order here.
\<close>

definition sin_omp :: "('f \<Rightarrow> 'f) \<Rightarrow> size_t \<Rightarrow> 'f machine \<Rightarrow> ('f machine \<times> status) option" where
  "sin_omp sinf n m =
     do {
       m \<leftarrow> for_loop 0 n (\<lambda>i m. do { x \<leftarrow> load_arr i m; store_result i (sinf x) m }) m;
       Some (m, Return 0)
     }"

subsection \<open>The lookup-table kernels\<close>

text \<open>\<^verbatim>\<open>float factor = lookup_table_size / M_PI * 2.0;\<close> evaluated in \<^verbatim>\<open>double\<close>, stored as \<^verbatim>\<open>float\<close>.\<close>

definition lookup_factor :: "(real \<Rightarrow> fval) \<Rightarrow> (real \<Rightarrow> fval) \<Rightarrow> size_t \<Rightarrow> fval" where
  "lookup_factor rnd_d rnd_s lookup_table_size =
     double_to_float rnd_s
       (fmul rnd_d (fdiv rnd_d (size_to_double lookup_table_size) (rnd_d M_PI)) (Fin 2))"

text \<open>\<^verbatim>\<open>(int)(arr[i] * factor)\<close>\<close>

definition lookup_index :: "(real \<Rightarrow> fval) \<Rightarrow> fval \<Rightarrow> fval \<Rightarrow> int option" where
  "lookup_index rnd_s x factor = float_to_int (fmul rnd_s x factor)"

text \<open>\<^verbatim>\<open>lookup_table[k]\<close> for an \<^verbatim>\<open>int\<close> k; outside the table the read is undefined.\<close>

definition load_table :: "fval list \<Rightarrow> int \<Rightarrow> fval option" where
  "load_table lookup_table k =
     (if 0 \<le> k \<and> nat k < length lookup_table then Some (lookup_table ! nat k) else None)"

definition sin_baseline_lookup_table ::
  "(real \<Rightarrow> fval) \<Rightarrow> (real \<Rightarrow> fval) \<Rightarrow> size_t \<Rightarrow> fval list \<Rightarrow> size_t \<Rightarrow> fval machine
     \<Rightarrow> (fval machine \<times> status) option" where
  "sin_baseline_lookup_table rnd_d rnd_s n lookup_table lookup_table_size m =
     do {
       let factor = lookup_factor rnd_d rnd_s lookup_table_size;
       m \<leftarrow> for_loop 0 n
              (\<lambda>i m. do {
                 x \<leftarrow> load_arr i m;
                 k \<leftarrow> lookup_index rnd_s x factor;
                 v \<leftarrow> load_table lookup_table k;
                 store_result i v m
               }) m;
       Some (m, NoReturnValue)
     }"

text \<open>
  \<^verbatim>\<open>sin_ssr_lookup_table\<close>: the loop is commented out in the source; what is left configures
  both movers, switches streaming on, computes \<^verbatim>\<open>factor\<close> and switches streaming off.
\<close>

definition sin_ssr_lookup_table ::
  "(real \<Rightarrow> fval) \<Rightarrow> (real \<Rightarrow> fval) \<Rightarrow> size_t \<Rightarrow> fval list \<Rightarrow> size_t \<Rightarrow> fval machine
     \<Rightarrow> (fval machine \<times> status) option" where
  "sin_ssr_lookup_table rnd_d rnd_s n lookup_table lookup_table_size m =
     do {
       let m = snrt_ssr_loop_1d SNRT_SSR_DM0 n 4 m;
       let m = snrt_ssr_repeat SNRT_SSR_DM0 1 m;
       let m = snrt_ssr_read SNRT_SSR_DM0 0 m;
       let m = snrt_ssr_loop_1d SNRT_SSR_DM1 n 4 m;
       let m = snrt_ssr_repeat SNRT_SSR_DM1 1 m;
       let m = snrt_ssr_write SNRT_SSR_DM1 0 m;
       let m = snrt_ssr_enable m;
       let factor = lookup_factor rnd_d rnd_s lookup_table_size;
       let m = snrt_ssr_disable m;
       Some (m, Return 0)
     }"

section \<open>The sigmoid kernels (sigmoid.c)\<close>

text \<open>\<open>rnd\<close> rounds to \<^verbatim>\<open>double\<close>; \<open>exp_d\<close> is the library's \<^verbatim>\<open>exp\<close>.\<close>

definition sigmoid_baseline ::
  "(real \<Rightarrow> fval) \<Rightarrow> (fval \<Rightarrow> fval) \<Rightarrow> size_t \<Rightarrow> fval machine \<Rightarrow> (fval machine \<times> status) option" where
  "sigmoid_baseline rnd exp_d n m =
     do {
       m \<leftarrow> for_loop 0 n
              (\<lambda>i m. do {
                 x \<leftarrow> load_arr i m;
                 store_result i (fdiv rnd (Fin 1) (fadd rnd (Fin 1) (exp_d (fneg x)))) m
               }) m;
       Some (m, Return 0)
     }"

text \<open>
  The body of the streaming loop: \<^verbatim>\<open>fneg.d fa0, ft0\<close>, streaming off, \<^verbatim>\<open>call exp\<close>, streaming on,
  \<^verbatim>\<open>fdiv.d ft2, fa0, fa0\<close>, \<^verbatim>\<open>fadd.d fa0, ft2, fa0\<close>, \<^verbatim>\<open>fdiv.d ft1, ft2, fa0\<close>. The kernel
  configures the movers behind \<^verbatim>\<open>ft0\<close> and \<^verbatim>\<open>ft1\<close> only and uses \<^verbatim>\<open>ft2\<close> as a scratch
  register.
\<close>

definition sigmoid_ssr_body :: "(real \<Rightarrow> fval) \<Rightarrow> (fval \<Rightarrow> fval) \<Rightarrow> fval machine \<Rightarrow> fval machine option" where
  "sigmoid_ssr_body rnd exp_d m =
     do {
       (x, m) \<leftarrow> read_ft0 m;
       let m = m\<lparr>fa0 := fneg x\<rparr>;
       let m = snrt_ssr_disable m;
       let m = call exp_d m;
       let m = snrt_ssr_enable m;
       let m = m\<lparr>ft2 := fdiv rnd (fa0 m) (fa0 m)\<rparr>;
       let m = m\<lparr>fa0 := fadd rnd (ft2 m) (fa0 m)\<rparr>;
       write_ft1 (fdiv rnd (ft2 m) (fa0 m)) m
     }"

definition sigmoid_ssr ::
  "(real \<Rightarrow> fval) \<Rightarrow> (fval \<Rightarrow> fval) \<Rightarrow> size_t \<Rightarrow> fval machine \<Rightarrow> (fval machine \<times> status) option" where
  "sigmoid_ssr rnd exp_d n m =
     do {
       let m = snrt_ssr_loop_1d SNRT_SSR_DM0 n 8 m;
       let m = snrt_ssr_repeat SNRT_SSR_DM0 1 m;
       let m = snrt_ssr_read SNRT_SSR_DM0 0 m;
       let m = snrt_ssr_loop_1d SNRT_SSR_DM1 n 8 m;
       let m = snrt_ssr_repeat SNRT_SSR_DM1 1 m;
       let m = snrt_ssr_write SNRT_SSR_DM1 0 m;
       let m = snrt_ssr_enable m;
       m \<leftarrow> for_loop 0 n (\<lambda>i. sigmoid_ssr_body rnd exp_d) m;
       let m = snrt_ssr_disable m;
       Some (m, Return 0)
     }"

definition sigmoid_ssr_frep :: "size_t \<Rightarrow> fval machine \<Rightarrow> (fval machine \<times> status) option" where
  "sigmoid_ssr_frep n m = Some (m, Return 0)"


section \<open>The partition as the specification words it\<close>

text \<open>
  Over the natural numbers, for array length \<open>N\<close>, core count \<open>C\<close> and core index \<open>i\<close>:
  \<open>local_length = N / C\<close> (integer division), remainder \<open>R = N - local_length * C\<close>,
  \<open>local_offset = i * local_length\<close>, \<open>has_extra_element = (i < R)\<close>, and the extra
  element at flat index \<open>local_length * C + i\<close>.
\<close>

definition spec_local_length :: "nat \<Rightarrow> nat \<Rightarrow> nat" where
  "spec_local_length N C = N div C"

definition spec_remainder :: "nat \<Rightarrow> nat \<Rightarrow> nat" where
  "spec_remainder N C = N - spec_local_length N C * C"

definition spec_local_offset :: "nat \<Rightarrow> nat \<Rightarrow> nat \<Rightarrow> nat" where
  "spec_local_offset N C i = i * spec_local_length N C"

definition spec_has_extra_element :: "nat \<Rightarrow> nat \<Rightarrow> nat \<Rightarrow> bool" where
  "spec_has_extra_element N C i = (i < spec_remainder N C)"

definition spec_extra_index :: "nat \<Rightarrow> nat \<Rightarrow> nat \<Rightarrow> nat" where
  "spec_extra_index N C i = spec_local_length N C * C + i"


section \<open>Calls of the kernels\<close>

text \<open>
  The library routines and the two rounding functions every call depends on.
\<close>

record libm =
  lib_sinf :: "fval \<Rightarrow> fval"
  lib_exp :: "fval \<Rightarrow> fval"
  rnd_double :: "real \<Rightarrow> fval"
  rnd_float :: "real \<Rightarrow> fval"

text \<open>
  A call of one kernel with its scalar arguments: \<^verbatim>\<open>n\<close>; for the partitioned kernels
  \<^verbatim>\<open>n\<close>, \<^verbatim>\<open>core_num\<close> and \<^verbatim>\<open>core_idx\<close> of the calling core; for the lookup-table kernels
  \<^verbatim>\<open>n\<close>, \<^verbatim>\<open>lookup_table\<close> and \<^verbatim>\<open>lookup_table_size\<close>.
\<close>

datatype kernel =
    Sin_baseline size_t
  | Sin_ssr size_t
  | Sin_ssr_frep size_t
  | Sin_parallel size_t size_t size_t
  | Sin_ssr_parallel size_t size_t size_t
  | Sin_baseline_lookup_table size_t "fval list" size_t
  | Sin_omp size_t
  | Sin_ssr_lookup_table size_t "fval list" size_t
  | Sin_ssr_omp size_t size_t size_t
  | Sigmoid_baseline size_t
  | Sigmoid_ssr size_t
  | Sigmoid_ssr_frep size_t

fun run_kernel :: "libm \<Rightarrow> kernel \<Rightarrow> fval machine \<Rightarrow> (fval machine \<times> status) option" where
  "run_kernel lib (Sin_baseline n) m = sin_baseline (lib_sinf lib) n m"
| "run_kernel lib (Sin_ssr n) m = sin_ssr (lib_sinf lib) n m"
| "run_kernel lib (Sin_ssr_frep n) m = sin_ssr_frep (lib_sinf lib) n m"
| "run_kernel lib (Sin_parallel n core_num core_idx) m = sin_parallel (lib_sinf lib) n core_num core_idx m"
| "run_kernel lib (Sin_ssr_parallel n core_num core_idx) m =
     sin_ssr_parallel (lib_sinf lib) n core_num core_idx m"
| "run_kernel lib (Sin_baseline_lookup_table n lookup_table lookup_table_size) m =
     sin_baseline_lookup_table (rnd_double lib) (rnd_float lib) n lookup_table lookup_table_size m"
| "run_kernel lib (Sin_omp n) m = sin_omp (lib_sinf lib) n m"
| "run_kernel lib (Sin_ssr_lookup_table n lookup_table lookup_table_size) m =
     sin_ssr_lookup_table (rnd_double lib) (rnd_float lib) n lookup_table lookup_table_size m"
| "run_kernel lib (Sin_ssr_omp n core_num core_idx) m = sin_ssr_omp (lib_sinf lib) n core_num core_idx m"
| "run_kernel lib (Sigmoid_baseline n) m = sigmoid_baseline (rnd_double lib) (lib_exp lib) n m"
| "run_kernel lib (Sigmoid_ssr n) m = sigmoid_ssr (rnd_double lib) (lib_exp lib) n m"
| "run_kernel lib (Sigmoid_ssr_frep n) m = sigmoid_ssr_frep n m"

text \<open>
  The output positions a call is assigned: the whole array \<open>0 .. n - 1\<close> for the kernels
  that take the whole array, the indices of the calling core for the partitioned ones.
  \<^verbatim>\<open>sin_ssr_lookup_table\<close> and \<^verbatim>\<open>sigmoid_ssr_frep\<close> have no statement that stores an
  element: they are assigned nothing.
\<close>

fun assigned :: "kernel \<Rightarrow> nat set" where
  "assigned (Sin_baseline n) = {..< unat n}"
| "assigned (Sin_ssr n) = {..< unat n}"
| "assigned (Sin_ssr_frep n) = {..< unat n}"
| "assigned (Sin_parallel n core_num core_idx) = set (map unat (core_indices n core_num core_idx))"
| "assigned (Sin_ssr_parallel n core_num core_idx) = set (map unat (core_indices n core_num core_idx))"
| "assigned (Sin_baseline_lookup_table n lookup_table lookup_table_size) = {..< unat n}"
| "assigned (Sin_omp n) = {..< unat n}"
| "assigned (Sin_ssr_lookup_table n lookup_table lookup_table_size) = {}"
| "assigned (Sin_ssr_omp n core_num core_idx) = set (map unat (core_indices n core_num core_idx))"
| "assigned (Sigmoid_baseline n) = {..< unat n}"
| "assigned (Sigmoid_ssr n) = {..< unat n}"
| "assigned (Sigmoid_ssr_frep n) = {}"

text \<open>
  What a call computes from one input element: the expressions of the loop bodies.
\<close>

definition sigmoid_elem :: "(real \<Rightarrow> fval) \<Rightarrow> (fval \<Rightarrow> fval) \<Rightarrow> fval \<Rightarrow> fval" where
  "sigmoid_elem rnd exp_d x = fdiv rnd (Fin 1) (fadd rnd (Fin 1) (exp_d (fneg x)))"

definition sigmoid_ssr_elem :: "(real \<Rightarrow> fval) \<Rightarrow> (fval \<Rightarrow> fval) \<Rightarrow> fval \<Rightarrow> fval" where
  "sigmoid_ssr_elem rnd exp_d x =
     (let e = exp_d (fneg x); one = fdiv rnd e e in fdiv rnd one (fadd rnd one e))"

definition lookup_value :: "(real \<Rightarrow> fval) \<Rightarrow> fval \<Rightarrow> fval list \<Rightarrow> fval \<Rightarrow> fval option" where
  "lookup_value rnd_s factor lookup_table x =
     do { k \<leftarrow> lookup_index rnd_s x factor; load_table lookup_table k }"

fun elem :: "libm \<Rightarrow> kernel \<Rightarrow> fval \<Rightarrow> fval" where
  "elem lib (Sin_baseline_lookup_table n lookup_table lookup_table_size) x =
     the (lookup_value (rnd_float lib)
            (lookup_factor (rnd_double lib) (rnd_float lib) lookup_table_size) lookup_table x)"
| "elem lib (Sigmoid_baseline n) x = sigmoid_elem (rnd_double lib) (lib_exp lib) x"
| "elem lib (Sigmoid_ssr n) x = sigmoid_ssr_elem (rnd_double lib) (lib_exp lib) x"
| "elem lib k x = lib_sinf lib x"

text \<open>
  A partitioned kernel on the whole group: every core \<open>c\<close> of the list runs the kernel with
  its own index. The cores share the two buffers; they are run one after the other here,
  and since every kernel sets up its data movers before it uses them, the machine is
  handed from one core to the next as it is.
\<close>

fun run_cores ::
  "(size_t \<Rightarrow> 'f machine \<Rightarrow> ('f machine \<times> status) option) \<Rightarrow> nat list \<Rightarrow> 'f machine \<Rightarrow> 'f machine option" where
  "run_cores k [] m = Some m"
| "run_cores k (c # cs) m = (case k (of_nat c) m of None \<Rightarrow> None | Some (m', r) \<Rightarrow> run_cores k cs m')"

text \<open>The strategies for the sine that are meant to compute what the baseline computes.\<close>

datatype sine_strategy = Ssr | Ssr_frep | Parallel | Ssr_parallel | Omp | Ssr_omp

fun run_sine_strategy ::
  "('f \<Rightarrow> 'f) \<Rightarrow> sine_strategy \<Rightarrow> size_t \<Rightarrow> size_t \<Rightarrow> 'f machine \<Rightarrow> 'f machine option" where
  "run_sine_strategy sinf Ssr n core_num m = map_option fst (sin_ssr sinf n m)"
| "run_sine_strategy sinf Ssr_frep n core_num m = map_option fst (sin_ssr_frep sinf n m)"
| "run_sine_strategy sinf Parallel n core_num m =
     run_cores (sin_parallel sinf n core_num) [0 ..< unat core_num] m"
| "run_sine_strategy sinf Ssr_parallel n core_num m =
     run_cores (sin_ssr_parallel sinf n core_num) [0 ..< unat core_num] m"
| "run_sine_strategy sinf Omp n core_num m = map_option fst (sin_omp sinf n m)"
| "run_sine_strategy sinf Ssr_omp n core_num m =
     run_cores (sin_ssr_omp sinf n core_num) [0 ..< unat core_num] m"

text \<open>A machine whose buffers are \<open>arr\<close> and \<open>result\<close>, streaming off, everything else zero.\<close>

definition idle_mover :: data_mover where
  "idle_mover = \<lparr> dm_bound = 0, dm_stride = 0, dm_repeat = 0, dm_write = False, dm_base = 0, dm_pos = 0 \<rparr>"

definition machine_of :: "'f \<Rightarrow> 'f list \<Rightarrow> 'f list \<Rightarrow> 'f machine" where
  "machine_of z arr result =
     \<lparr> arr_mem = arr, result_mem = result, ssr_on = False, dm0 = idle_mover, dm1 = idle_mover,
       fa0 = z, ft0 = z, ft1 = z, ft2 = z \<rparr>"

definition output_of :: "('f machine \<times> status) option \<Rightarrow> 'f list option" where
  "output_of r = map_option (\<lambda>(m, s). result_mem m) r"

definition status_of :: "('f machine \<times> status) option \<Rightarrow> status option" where
  "status_of r = map_option snd r"

text \<open>
  Modelled from the spec: the verification step of the harness (\<^verbatim>\<open>verify_vector\<close>, whose
  source is not part of these files) accepts an element when it is within a fixed absolute
  tolerance of the reference, \<open>1e-5\<close> for the sine.
\<close>

definition within_tolerance :: "real \<Rightarrow> fval \<Rightarrow> fval \<Rightarrow> bool" where
  "within_tolerance tol a b = (case (a, b) of (Fin x, Fin y) \<Rightarrow> \<bar>x - y\<bar> \<le> tol | _ \<Rightarrow> False)"

definition sine_tolerance :: real where
  "sine_tolerance = 1 / 100000"

text \<open>The mathematical sine, as the ideal \<^verbatim>\<open>sinf\<close>.\<close>

fun sinf_exact :: "fval \<Rightarrow> fval" where
  "sinf_exact (Fin x) = Fin (sin x)"
| "sinf_exact a = NaN"

text \<open>The comparison \<^verbatim>\<open>a == b\<close> of two floating-point values: a NaN is equal to nothing.\<close>

definition feq :: "fval \<Rightarrow> fval \<Rightarrow> bool" where
  "feq a b \<longleftrightarrow> a \<noteq> NaN \<and> a = b"

text \<open>The mathematical exponential, as the ideal \<^verbatim>\<open>exp\<close>, and a library without rounding.\<close>

fun exp_exact :: "fval \<Rightarrow> fval" where
  "exp_exact (Fin x) = Fin (exp x)"
| "exp_exact PInf = PInf"
| "exp_exact NInf = Fin 0"
| "exp_exact NaN = NaN"

definition exact_lib :: libm where
  "exact_lib = \<lparr> lib_sinf = sinf_exact, lib_exp = exp_exact, rnd_double = Fin, rnd_float = Fin \<rparr>"

section \<open>The lookup table as the specification words it\<close>

text \<open>
  \<open>domain_scale = size / (2\<pi>)\<close>, and the index of an input \<open>x\<close> is the floor of
  \<open>x * domain_scale\<close>.
\<close>

definition spec_domain_scale :: "nat \<Rightarrow> real" where
  "spec_domain_scale T = real T / (2 * pi)"

definition spec_lookup_index :: "nat \<Rightarrow> real \<Rightarrow> int" where
  "spec_lookup_index T x = \<lfloor>x * spec_domain_scale T\<rfloor>"

section \<open>The memory benchmark (benchmark\_mem\_versus\_l1.c)\<close>

text \<open>
  \<^verbatim>\<open>main\<close> works on four buffers, named after its variables. Each comes from one of two
  allocators: \<^verbatim>\<open>allocate\<close> (declared in a header that is not among these files) or
  \<^verbatim>\<open>snrt_l1alloc\<close>, the scratchpad allocator of the runtime. The state records where each
  buffer came from, its cells, and the loads and stores since the log was last cleared.
\<close>

datatype buffer = Memory_x | Memory_target | Memory_target_from_l1 | Memory_l1

datatype allocator = Allocate | Snrt_l1alloc

record bench_state =
  origin :: "buffer \<Rightarrow> allocator option"
  cells :: "buffer \<Rightarrow> fval list"
  loads :: "(buffer \<times> nat) list"
  stores :: "(buffer \<times> nat) list"

text \<open>A fresh buffer of \<open>k\<close> cells; what they hold before the first store is the parameter \<open>junk\<close>.\<close>

definition alloc :: "allocator \<Rightarrow> fval \<Rightarrow> buffer \<Rightarrow> size_t \<Rightarrow> bench_state \<Rightarrow> bench_state" where
  "alloc a junk b k st =
     st\<lparr>origin := (origin st)(b := Some a), cells := (cells st)(b := replicate (unat k) junk)\<rparr>"

definition load_cell :: "buffer \<Rightarrow> size_t \<Rightarrow> bench_state \<Rightarrow> (fval \<times> bench_state) option" where
  "load_cell b i st =
     (if origin st b \<noteq> None \<and> unat i < length (cells st b)
      then Some (cells st b ! unat i, st\<lparr>loads := loads st @ [(b, unat i)]\<rparr>)
      else None)"

definition store_cell :: "buffer \<Rightarrow> size_t \<Rightarrow> fval \<Rightarrow> bench_state \<Rightarrow> bench_state option" where
  "store_cell b i v st =
     (if origin st b \<noteq> None \<and> unat i < length (cells st b)
      then Some (st\<lparr>cells := (cells st)(b := (cells st b)[unat i := v]),
                    stores := stores st @ [(b, unat i)]\<rparr>)
      else None)"

text \<open>\<^verbatim>\<open>for (size_t i = 0; i < size; i++) dst[i] = src[i];\<close>\<close>

definition copy_loop :: "buffer \<Rightarrow> buffer \<Rightarrow> size_t \<Rightarrow> bench_state \<Rightarrow> bench_state option" where
  "copy_loop dst src size_n st =
     for_loop 0 size_n (\<lambda>i st. do { (v, st) \<leftarrow> load_cell src i st; store_cell dst i v st }) st"

text \<open>
  One line of the report: the label, the size, the difference of the two readings of the
  cycle counter, and (not printed, kept for the properties below) the loads made between
  the two readings.
\<close>

record report_line =
  label :: string
  reported_size :: size_t
  cycles :: size_t
  timed_loads :: "(buffer \<times> nat) list"

text \<open>
  \<^verbatim>\<open>main\<close>. \<open>size_n\<close> is the compiled-in array length \<^verbatim>\<open>size\<close>; \<open>t0 \<dots> t3\<close> are the four readings of
  \<^verbatim>\<open>mcycle\<close>; \<open>rnd_d\<close> and \<open>rnd_s\<close> round to \<^verbatim>\<open>double\<close> and \<^verbatim>\<open>float\<close>. The result is the exit
  code, the report and the final state; a core other than core 0 returns 1 at once. The
  two calls of \<^verbatim>\<open>verify_vector\<close> (not among these files) come after both reports and are
  left out.
\<close>

definition bench_init :: bench_state where
  "bench_init = \<lparr> origin = (\<lambda>b. None), cells = (\<lambda>b. []), loads = [], stores = [] \<rparr>"

definition fill_value :: "(real \<Rightarrow> fval) \<Rightarrow> (real \<Rightarrow> fval) \<Rightarrow> size_t \<Rightarrow> fval" where
  "fill_value rnd_d rnd_s i = double_to_float rnd_s (fadd rnd_d (rnd_s (real (unat i))) (Fin (- 20)))"

definition bench_main ::
  "(real \<Rightarrow> fval) \<Rightarrow> (real \<Rightarrow> fval) \<Rightarrow> fval \<Rightarrow> size_t \<Rightarrow> size_t \<Rightarrow> size_t \<Rightarrow> size_t \<Rightarrow> size_t \<Rightarrow> size_t
     \<Rightarrow> (int \<times> report_line list \<times> bench_state) option" where
  "bench_main rnd_d rnd_s junk core_idx size_n t0 t1 t2 t3 =
     (if core_idx \<noteq> 0 then Some (1, [], bench_init)
      else do {
        let st = alloc Allocate junk Memory_x size_n bench_init;
        let st = alloc Allocate junk Memory_target size_n st;
        let st = alloc Allocate junk Memory_target_from_l1 size_n st;
        st \<leftarrow> for_loop 0 size_n (\<lambda>i st. store_cell Memory_x i (fill_value rnd_d rnd_s i) st) st;
        let st = st\<lparr>loads := [], stores := []\<rparr>;
        st \<leftarrow> copy_loop Memory_target Memory_x size_n st;
        let line1 = \<lparr> label = ''copy_memory_to_memory'', reported_size = size_n, cycles = t1 - t0,
                      timed_loads = loads st \<rparr>;
        let st = alloc Snrt_l1alloc junk Memory_l1 size_n st;
        let st = st\<lparr>loads := [], stores := []\<rparr>;
        st \<leftarrow> copy_loop Memory_target_from_l1 Memory_x size_n st;
        let line2 = \<lparr> label = ''copy_l1_to_memory'', reported_size = size_n, cycles = t3 - t2,
                      timed_loads = loads st \<rparr>;
        Some (0, [line1, line2], st)
      })"

section \<open>What a run may change\<close>

text \<open>
  \<open>writes_only W g m m'\<close>: from \<open>m\<close> to \<open>m'\<close> the input buffer is unchanged, the output buffer
  keeps its length, every position in \<open>W\<close> holds \<open>g\<close> of the input element at the same
  position, and every other position holds what it held before.
\<close>

definition writes_only :: "nat set \<Rightarrow> ('f \<Rightarrow> 'f) \<Rightarrow> 'f machine \<Rightarrow> 'f machine \<Rightarrow> bool" where
  "writes_only W g m m' \<longleftrightarrow>
     arr_mem m' = arr_mem m \<and> length (result_mem m') = length (result_mem m) \<and>
     (\<forall>k < length (result_mem m).
        result_mem m' ! k = (if k \<in> W then g (arr_mem m ! k) else result_mem m ! k))"

text \<open>
  One iteration of a streaming loop, seen from outside: an element is consumed through
  data mover 0, \<open>g\<close> of it is produced through data mover 1, and the registers \<^verbatim>\<open>fa0\<close> and
  \<^verbatim>\<open>ft2\<close> are left with some values \<open>ra\<close> and \<open>rb\<close>.
\<close>

definition stream_step :: "('f \<Rightarrow> 'f) \<Rightarrow> 'f machine \<Rightarrow> 'f \<Rightarrow> 'f \<Rightarrow> 'f machine option" where
  "stream_step g m ra rb =
     (let d0 = dm0 m; d1 = dm1 m;
          p0 = unat (dm_base d0 + dm_pos d0); p1 = unat (dm_base d1 + dm_pos d1)
      in if \<not> dm_write d0 \<and> dm_pos d0 < dm_bound d0 \<and> p0 < length (arr_mem m)
            \<and> dm_write d1 \<and> dm_pos d1 < dm_bound d1 \<and> p1 < length (result_mem m)
         then Some (m\<lparr>result_mem := (result_mem m)[p1 := g (arr_mem m ! p0)],
                      dm0 := d0\<lparr>dm_pos := dm_pos d0 + 1\<rparr>,
                      dm1 := d1\<lparr>dm_pos := dm_pos d1 + 1\<rparr>,
                      fa0 := ra, ft2 := rb\<rparr>)
         else None)"

section \<open>Properties of the work partition\<close>

subsection \<open>The word arithmetic of the partition does not wrap\<close>

lemma unat_size_t_less: "unat (w :: size_t) < 4294967296"
  using unsigned_less [of w, where ?'a = nat] by simp

lemma unat_local_n: "unat (local_n_of n c) = unat n div unat c"
  by (simp add: local_n_of_def unat_div)

lemma unat_block: "unat (local_n_of n c * c) = (unat n div unat c) * unat c"
proof -
  have "(unat n div unat c) * unat c \<le> unat n" by simp
  also have "\<dots> < 2 ^ LENGTH(32)" by (rule unsigned_less)
  finally show ?thesis
    by (simp add: unat_word_ariths unat_local_n)
qed

lemma unat_block': "unat (c * local_n_of n c) = (unat n div unat c) * unat c"
  using unat_block [of n c] by (simp add: mult.commute)

lemma unat_remainder: "unat (n - local_n_of n c * c) = unat n - (unat n div unat c) * unat c"
proof -
  have "local_n_of n c * c \<le> n"
    by (simp add: word_le_nat_alt unat_block)
  then show ?thesis by (simp add: unat_sub unat_block)
qed

lemma do_extra_nat:
  "do_extra_of n c i \<longleftrightarrow> unat i < unat n - (unat n div unat c) * unat c"
  by (simp add: do_extra_of_def Let_def word_less_nat_alt unat_remainder)

lemma unat_local_index:
  assumes "i < c" "k < unat n div unat c"
  shows "unat (local_index i (local_n_of n c) (of_nat k)) = unat i * (unat n div unat c) + k"
proof -
  let ?L = "unat n div unat c"
  have ic: "unat i < unat c" using assms(1) by (simp add: word_less_nat_alt)
  have "unat i * ?L + k < unat i * ?L + ?L" using assms(2) by simp
  also have "\<dots> = (unat i + 1) * ?L" by simp
  also have "\<dots> \<le> unat c * ?L" using ic by (intro mult_le_mono1) simp
  also have "\<dots> \<le> unat n" by (simp add: mult.commute)
  finally have lt: "unat i * ?L + k < unat n" .
  have n: "unat n < 2 ^ 32" using unsigned_less [of n] by simp
  have k: "k < 2 ^ 32" using lt n by simp
  have m: "unat i * ?L < 2 ^ 32" using lt n by simp
  show ?thesis
    using lt n k m
    by (simp add: local_index_def unat_word_ariths unat_local_n unat_of_nat)
qed

lemma unat_extra_index:
  assumes "do_extra_of n c i"
  shows "unat (extra_index_of n c i) = (unat n div unat c) * unat c + unat i"
proof -
  let ?L = "unat n div unat c"
  have "unat i < unat n - ?L * unat c" using assms by (simp add: do_extra_nat)
  then have lt: "?L * unat c + unat i < unat n" by simp
  have n: "unat n < 2 ^ 32" using unsigned_less [of n] by simp
  have "unat (c * local_n_of n c) + unat i < 2 ^ LENGTH(32)"
    using lt n by (simp add: unat_block')
  then have "unat (c * local_n_of n c + i) = unat (c * local_n_of n c) + unat i"
    by (rule unat_add_lem [THEN iffD1])
  then show ?thesis
    by (simp add: extra_index_of_def Let_def unat_block')
qed

lemma block_upt: "map (\<lambda>k. c * L + k) [0 ..< L] = [c * L ..< c * L + L]"
proof -
  have "map (\<lambda>k. c * L + k) [0 ..< L] = map (\<lambda>k. k + c * L) [0 ..< L]"
    by (simp add: add.commute)
  also have "\<dots> = [c * L ..< L + c * L]" by (rule map_add_upt)
  finally show ?thesis by (simp add: add.commute)
qed

lemma mset_blocks:
  "mset (concat (map (\<lambda>c. map (\<lambda>k. c * L + k) [0 ..< L]) [0 ..< m])) = mset [0 ..< m * L]"
proof (induction m)
  case 0
  then show ?case by simp
next
  case (Suc m)
  have "[0 ..< m * L + L] = [0 ..< m * L] @ [m * L ..< m * L + L]"
    by (rule upt_add_eq_append) simp
  then have "mset [0 ..< Suc m * L] = mset [0 ..< m * L] + mset [m * L ..< m * L + L]"
    by (simp add: add.commute)
  then show ?case using Suc by (simp add: block_upt)
qed

lemma extras_below:
  "m \<le> R \<Longrightarrow> concat (map (\<lambda>c. if c < R then [B + c] else []) [0 ..< m]) = map (\<lambda>c. B + c) [0 ..< m]"
  by (induction m) auto

lemma mset_extras:
  "R \<le> m \<Longrightarrow>
   mset (concat (map (\<lambda>c. if c < R then [B + c] else []) [0 ..< m])) = mset (map (\<lambda>c. B + c) [0 ..< R])"
proof (induction m)
  case 0
  then show ?case by simp
next
  case (Suc m)
  show ?case
  proof (cases "R = Suc m")
    case True
    then show ?thesis using extras_below [of "Suc m" R B] by simp
  next
    case False
    with Suc show ?thesis by simp
  qed
qed


lemma mset_concat_append:
  "mset (concat (map (\<lambda>c. f c @ g c) xs)) = mset (concat (map f xs)) + mset (concat (map g xs))"
  by (induction xs) auto

lemma unat_core_indices:
  assumes "k < unat c"
  shows "map unat (core_indices n c (of_nat k)) =
     map (\<lambda>j. k * (unat n div unat c) + j) [0 ..< unat n div unat c]
     @ (if k < unat n - (unat n div unat c) * unat c then [(unat n div unat c) * unat c + k] else [])"
proof -
  let ?i = "of_nat k :: size_t"
  have kb: "k < 2 ^ 32" using assms unat_size_t_less [of c] by simp
  then have uk: "unat ?i = k" by (simp add: unat_of_nat)
  have ic: "?i < c" using assms uk by (simp add: word_less_nat_alt)
  have blk: "map unat (map (\<lambda>j. local_index ?i (local_n_of n c) (of_nat j)) [0 ..< unat n div unat c])
      = map (\<lambda>j. k * (unat n div unat c) + j) [0 ..< unat n div unat c]"
    using unat_local_index [OF ic, of _ n] uk by simp
  show ?thesis
  proof (cases "do_extra_of n c ?i")
    case True
    then show ?thesis
      using blk unat_extra_index [OF True] do_extra_nat [of n c ?i] uk
      by (simp add: core_indices_def Let_def unat_local_n)
  next
    case False
    then show ?thesis
      using blk do_extra_nat [of n c ?i] uk
      by (simp add: core_indices_def Let_def unat_local_n)
  qed
qed

lemma all_core_indices_nat:
  "all_core_indices n c =
     concat (map (\<lambda>k. map (\<lambda>j. k * (unat n div unat c) + j) [0 ..< unat n div unat c]
        @ (if k < unat n - (unat n div unat c) * unat c then [(unat n div unat c) * unat c + k] else []))
      [0 ..< unat c])"
  unfolding all_core_indices_def
  by (rule arg_cong [where f = concat], rule map_cong) (simp_all add: unat_core_indices)

text \<open>
  C2. For every array length \<open>n\<close>, core count \<open>core_num\<close> and core index \<open>core_idx\<close> with
  \<open>core_idx < core_num \<le> n\<close>, the values the kernels compute in 32-bit arithmetic are those
  of the specification's partition over the natural numbers: \<open>local_length = N / C\<close>,
  \<open>local_offset = i * local_length\<close>, \<open>has_extra_element = (i < R)\<close> with
  \<open>R = N - local_length * C\<close>, and, for a core that has one, the extra element at flat
  index \<open>local_length * C + i\<close>. For \<open>N = 10\<close> and \<open>C = 3\<close> every core gets
  \<open>local_length = 3\<close>, \<open>R = 1\<close>, core 0 has its extra element at index 9, and cores 1 and 2
  have none.
\<close>

theorem partition_refines_spec:
  assumes "core_idx < core_num" and "core_num \<le> n"
  shows "unat (local_length (partition n core_num core_idx)) = spec_local_length (unat n) (unat core_num)
    \<and> unat (local_offset (partition n core_num core_idx))
        = spec_local_offset (unat n) (unat core_num) (unat core_idx)
    \<and> has_extra_element (partition n core_num core_idx)
        = spec_has_extra_element (unat n) (unat core_num) (unat core_idx)
    \<and> unat (n - local_length (partition n core_num core_idx) * core_num)
        = spec_remainder (unat n) (unat core_num)
    \<and> (has_extra_element (partition n core_num core_idx) \<longrightarrow>
         unat (extra_index (partition n core_num core_idx))
           = spec_extra_index (unat n) (unat core_num) (unat core_idx))
    \<and> (\<forall>i \<in> {0, 1, 2}. local_length (partition 10 3 i) = 3)
    \<and> (10 :: size_t) - local_length (partition 10 3 0) * 3 = 1
    \<and> has_extra_element (partition 10 3 0) \<and> extra_index (partition 10 3 0) = 9
    \<and> \<not> has_extra_element (partition 10 3 1) \<and> \<not> has_extra_element (partition 10 3 2)"
proof -
  let ?p = "partition n core_num core_idx"
  have len: "unat (local_length ?p) = spec_local_length (unat n) (unat core_num)"
    by (simp add: partition_def spec_local_length_def unat_local_n)
  have off: "unat (local_offset ?p) = spec_local_offset (unat n) (unat core_num) (unat core_idx)"
  proof (cases "unat n div unat core_num = 0")
    case True
    then have "local_n_of n core_num = 0"
      using unat_local_n [of n core_num] by (simp add: unat_eq_0)
    then show ?thesis using True
      by (simp add: partition_def local_index_def spec_local_offset_def spec_local_length_def)
  next
    case False
    then have "0 < unat n div unat core_num" by simp
    from unat_local_index [OF assms(1) this]
    show ?thesis
      by (simp add: partition_def spec_local_offset_def spec_local_length_def)
  qed
  have ext: "has_extra_element ?p = spec_has_extra_element (unat n) (unat core_num) (unat core_idx)"
    by (simp add: partition_def do_extra_nat spec_has_extra_element_def spec_remainder_def
        spec_local_length_def)
  have rem: "unat (n - local_length ?p * core_num) = spec_remainder (unat n) (unat core_num)"
    by (simp add: partition_def unat_remainder spec_remainder_def spec_local_length_def)
  have idx: "has_extra_element ?p \<longrightarrow>
      unat (extra_index ?p) = spec_extra_index (unat n) (unat core_num) (unat core_idx)"
    by (simp add: partition_def unat_extra_index spec_extra_index_def spec_local_length_def)
  have ex: "(\<forall>i \<in> {0, 1, 2}. local_length (partition 10 3 i) = 3)
    \<and> (10 :: size_t) - local_length (partition 10 3 0) * 3 = 1
    \<and> has_extra_element (partition 10 3 0) \<and> extra_index (partition 10 3 0) = 9
    \<and> \<not> has_extra_element (partition 10 3 1) \<and> \<not> has_extra_element (partition 10 3 2)"
    by (simp add: partition_def local_n_of_def do_extra_of_def extra_index_of_def)
  from len off ext rem idx ex show ?thesis by blast
qed

theorem partition_refines_spec_witness:
  "(0 :: size_t) < 3 \<and> (3 :: size_t) \<le> 10
   \<and> unat (local_length (partition 10 3 0)) = spec_local_length (unat (10 :: size_t)) (unat (3 :: size_t))
   \<and> spec_local_length 10 3 = 3"
proof -
  have a: "(0 :: size_t) < 3" by simp
  have b: "(3 :: size_t) \<le> 10" by simp
  have c: "unat (local_length (partition 10 3 0)) = spec_local_length (unat (10 :: size_t)) (unat (3 :: size_t))"
    using partition_refines_spec [OF a b] by (rule conjunct1)
  have d: "spec_local_length 10 3 = 3" by (simp add: spec_local_length_def)
  show ?thesis by (intro conjI a b c d)
qed

lemma all_core_indices_cover:
  assumes "0 < core_num"
  shows "mset (all_core_indices n core_num) = mset [0 ..< unat n]"
proof -
  let ?C = "unat core_num" and ?N = "unat n"
  let ?L = "?N div ?C"
  let ?R = "?N - ?L * ?C"
  have C: "0 < ?C" using assms by (simp add: word_less_nat_alt)
  have R: "?R \<le> ?C"
  proof -
    have "?R = ?N mod ?C" by (simp add: minus_div_mult_eq_mod)
    then show ?thesis using C by (simp add: less_imp_le)
  qed
  have split: "[0 ..< ?L * ?C + ?R] = [0 ..< ?L * ?C] @ [?L * ?C ..< ?L * ?C + ?R]"
    by (rule upt_add_eq_append) simp
  have ext: "map (\<lambda>c. ?L * ?C + c) [0 ..< ?R] = [?L * ?C ..< ?L * ?C + ?R]"
  proof -
    have "map (\<lambda>c. ?L * ?C + c) [0 ..< ?R] = map (\<lambda>c. c + ?L * ?C) [0 ..< ?R]"
      by (simp add: add.commute)
    also have "\<dots> = [?L * ?C ..< ?R + ?L * ?C]" by (rule map_add_upt)
    finally show ?thesis by (simp add: add.commute)
  qed
  have N: "?L * ?C + ?R = ?N" by simp
  have "mset (all_core_indices n core_num)
      = mset [0 ..< ?C * ?L] + mset (map (\<lambda>c. ?L * ?C + c) [0 ..< ?R])"
    unfolding all_core_indices_nat mset_concat_append
    using mset_blocks [of ?L ?C] mset_extras [OF R, of "?L * ?C"] by simp
  also have "\<dots> = mset [0 ..< ?L * ?C] + mset [?L * ?C ..< ?L * ?C + ?R]"
    using ext by (simp add: mult.commute)
  also have "\<dots> = mset [0 ..< ?L * ?C + ?R]"
    using split by (metis mset_append)
  finally show ?thesis using N by simp
qed

text \<open>
  C3. For every array length \<open>n\<close> and every non-empty core group with \<open>core_num \<le> n\<close>,
  the indices assigned to the cores \<open>0 .. core_num - 1\<close> (local block plus extra element)
  are, as a multiset, exactly \<open>0 .. n - 1\<close>: every index is assigned once, none twice,
  none left out.
\<close>

theorem partition_covers_once:
  assumes "0 < core_num" and "core_num \<le> n"
  shows "mset (all_core_indices n core_num) = mset [0 ..< unat n]"
  using assms(1) by (rule all_core_indices_cover)

theorem partition_covers_once_witness:
  "(0 :: size_t) < 3 \<and> (3 :: size_t) \<le> 10
   \<and> mset (all_core_indices 10 3) = mset [0 ..< unat (10 :: size_t)]
   \<and> all_core_indices 10 3 = [0, 1, 2, 9, 3, 4, 5, 6, 7, 8]"
proof -
  have a: "(0 :: size_t) < 3" by simp
  have b: "(3 :: size_t) \<le> 10" by simp
  have c: "mset (all_core_indices 10 3) = mset [0 ..< unat (10 :: size_t)]"
    by (rule partition_covers_once [OF a b])
  have d: "all_core_indices 10 3 = [0, 1, 2, 9, 3, 4, 5, 6, 7, 8]" by code_simp
  show ?thesis by (intro conjI a b c d)
qed


section \<open>Loops\<close>

subsection \<open>Invariant rules for the counting loop\<close>

lemma unat_plus_one: "(i :: size_t) < n \<Longrightarrow> unat (i + 1) = unat i + 1"
proof -
  assume "i < n"
  then have "unat i < unat n" by (simp add: word_less_nat_alt)
  with unat_size_t_less [of n] have "unat i + unat (1 :: size_t) < 2 ^ LENGTH(32)" by simp
  then have "unat (i + 1) = unat i + unat (1 :: size_t)" by (rule unat_add_lem [THEN iffD1])
  then show ?thesis by simp
qed

lemma for_loop_rule:
  assumes "I i s" and "i \<le> n"
    and "\<And>j t. i \<le> j \<Longrightarrow> j < n \<Longrightarrow> I j t \<Longrightarrow> \<exists>t'. body j t = Some t' \<and> I (j + 1) t'"
  shows "\<exists>s'. for_loop i n body s = Some s' \<and> I n s'"
  using assms
proof (induction i n body s rule: for_loop.induct)
  case (1 i n body s)
  show ?case
  proof (cases "i < n")
    case True
    from "1.prems"(3) [of i s] True "1.prems"(1)
    obtain t where t: "body i s = Some t" "I (i + 1) t" by auto
    have le: "i + 1 \<le> n" using True unat_plus_one [OF True]
      by (simp add: word_le_nat_alt word_less_nat_alt)
    have up: "\<And>j. i + 1 \<le> j \<Longrightarrow> i \<le> j"
      using unat_plus_one [OF True] by (simp add: word_le_nat_alt)
    have "\<exists>s'. for_loop (i + 1) n body t = Some s' \<and> I n s'"
      by (rule "1.IH" [OF True t(1) t(2) le]) (use up "1.prems"(3) in blast)
    then show ?thesis using True t(1) by simp
  next
    case False
    with "1.prems"(2) have "i = n" by simp
    then show ?thesis using "1.prems"(1) by simp
  qed
qed


lemma for_loop_partial_rule:
  assumes "for_loop i n body s = Some s'" and "I i s" and "i \<le> n"
    and "\<And>j t t'. i \<le> j \<Longrightarrow> j < n \<Longrightarrow> I j t \<Longrightarrow> body j t = Some t' \<Longrightarrow> I (j + 1) t'"
  shows "I n s'"
  using assms
proof (induction i n body s rule: for_loop.induct)
  case (1 i n body s)
  show ?case
  proof (cases "i < n")
    case True
    from "1.prems"(1) True obtain t where t: "body i s = Some t" "for_loop (i + 1) n body t = Some s'"
      by (auto split: option.splits)
    have It: "I (i + 1) t" using "1.prems"(4) [of i s t] True "1.prems"(2) t(1) by simp
    have le: "i + 1 \<le> n" using True unat_plus_one [OF True]
      by (simp add: word_le_nat_alt word_less_nat_alt)
    have up: "\<And>j. i + 1 \<le> j \<Longrightarrow> i \<le> j"
      using unat_plus_one [OF True] by (simp add: word_le_nat_alt)
    show ?thesis
      by (rule "1.IH" [OF True t(1) t(2) It le]) (use up "1.prems"(4) in blast)
  next
    case False
    with "1.prems"(3) have "i = n" by simp
    then show ?thesis using "1.prems"(1,2) by simp
  qed
qed

lemma less_plus_one_iff: "(j :: size_t) < n \<Longrightarrow> j' < j + 1 \<longleftrightarrow> j' < j \<or> j' = j"
  using unat_plus_one [of j n]
  by (auto simp: word_less_nat_alt word_unat_eq_iff)


lemma image_less_plus_one:
  "(j :: size_t) < n \<Longrightarrow> f ` {j'. j' < j + 1} = insert (f j) (f ` {j'. j' < j})"
  by (auto simp: less_plus_one_iff)

lemma scalar_loop_partial:
  fixes body :: "size_t \<Rightarrow> 'f machine \<Rightarrow> 'f machine option"
  assumes step: "\<And>j m. body j m =
      (if unat (idx j) < length (arr_mem m) \<and> unat (idx j) < length (result_mem m)
          \<and> ok (arr_mem m ! unat (idx j))
       then Some (m\<lparr>result_mem := (result_mem m)[unat (idx j) := g (arr_mem m ! unat (idx j))]\<rparr>)
       else None)"
    and run: "for_loop 0 n body m = Some m'"
  shows "writes_only ((\<lambda>j. unat (idx j)) ` {j. j < n}) g m m'
     \<and> m' = m\<lparr>result_mem := result_mem m'\<rparr>
     \<and> (\<forall>j < n. unat (idx j) < length (arr_mem m) \<and> unat (idx j) < length (result_mem m)
           \<and> ok (arr_mem m ! unat (idx j)))"
proof -
  define I where "I j t \<longleftrightarrow>
      writes_only ((\<lambda>j. unat (idx j)) ` {j'. j' < j}) g m t
     \<and> t = m\<lparr>result_mem := result_mem t\<rparr>
     \<and> (\<forall>j' < j. unat (idx j') < length (arr_mem m) \<and> unat (idx j') < length (result_mem m)
           \<and> ok (arr_mem m ! unat (idx j')))" for j :: size_t and t :: "'f machine"
  have init: "I 0 m" by (simp add: I_def writes_only_def)
  have "I n m'"
  proof (rule for_loop_partial_rule [OF run, where I = I, OF init])
    show "0 \<le> n" by simp
  next
    fix j t t'
    assume j: "j < n" and It: "I j t" and b: "body j t = Some t'"
    let ?p = "unat (idx j)"
    from It have am: "arr_mem t = arr_mem m" and len: "length (result_mem t) = length (result_mem m)"
      by (simp_all add: I_def writes_only_def)
    from b step [of j t]
    have ok: "?p < length (arr_mem t)" "?p < length (result_mem t)" "ok (arr_mem t ! ?p)"
      and t': "t' = t\<lparr>result_mem := (result_mem t)[?p := g (arr_mem t ! ?p)]\<rparr>"
      by (auto split: if_splits)
    have eq: "t' = m\<lparr>result_mem := result_mem t'\<rparr>"
    proof -
      from It have "t = m\<lparr>result_mem := result_mem t\<rparr>" by (simp add: I_def)
      then have "t\<lparr>result_mem := (result_mem t)[?p := g (arr_mem t ! ?p)]\<rparr>
          = m\<lparr>result_mem := (result_mem t)[?p := g (arr_mem t ! ?p)]\<rparr>"
        by (metis machine.update_convs(2) machine.surjective)
      then show ?thesis using t' by simp
    qed
    have w: "writes_only ((\<lambda>j. unat (idx j)) ` {j'. j' < j + 1}) g m t'"
      using It ok am len
      by (auto simp: I_def writes_only_def t' image_less_plus_one [OF j] nth_list_update)
    have bs: "\<forall>j' < j + 1. unat (idx j') < length (arr_mem m) \<and> unat (idx j') < length (result_mem m)
           \<and> ok (arr_mem m ! unat (idx j'))"
      using It ok am len by (auto simp: I_def less_plus_one_iff [OF j])
    show "I (j + 1) t'" using w eq bs by (simp add: I_def)
  qed
  then show ?thesis by (simp add: I_def)
qed

lemma scalar_loop_total:
  fixes body :: "size_t \<Rightarrow> 'f machine \<Rightarrow> 'f machine option"
  assumes step: "\<And>j m. body j m =
      (if unat (idx j) < length (arr_mem m) \<and> unat (idx j) < length (result_mem m)
          \<and> ok (arr_mem m ! unat (idx j))
       then Some (m\<lparr>result_mem := (result_mem m)[unat (idx j) := g (arr_mem m ! unat (idx j))]\<rparr>)
       else None)"
    and bounds: "\<And>j. j < n \<Longrightarrow> unat (idx j) < length (arr_mem m) \<and> unat (idx j) < length (result_mem m)
           \<and> ok (arr_mem m ! unat (idx j))"
  shows "\<exists>m'. for_loop 0 n body m = Some m'"
proof -
  define I where "I j t \<longleftrightarrow> arr_mem t = arr_mem m \<and> length (result_mem t) = length (result_mem m)"
    for j :: size_t and t :: "'f machine"
  have "\<exists>m'. for_loop 0 n body m = Some m' \<and> I n m'"
  proof (rule for_loop_rule [where I = I])
    show "I 0 m" by (simp add: I_def)
    show "0 \<le> n" by simp
  next
    fix j t
    assume "j < n" and "I j t"
    then show "\<exists>t'. body j t = Some t' \<and> I (j + 1) t'"
      using bounds [of j] by (simp add: step I_def)
  qed
  then show ?thesis by blast
qed


lemma sin_ssr_body_step:
  assumes "ssr_on m"
  shows "\<exists>ra rb. sin_ssr_body sinf m = stream_step sinf m ra rb"
proof -
  have "sin_ssr_body sinf m
      = stream_step sinf m (sinf (arr_mem m ! unat (dm_base (dm0 m) + dm_pos (dm0 m)))) (ft2 m)"
    using assms
    by (auto simp: sin_ssr_body_def stream_step_def read_ft0_def write_ft1_def Let_def
        snrt_ssr_disable_def snrt_ssr_enable_def call_def intro!: machine.equality)
  then show ?thesis by blast
qed

lemma sigmoid_ssr_body_step:
  assumes "ssr_on m"
  shows "\<exists>ra rb. sigmoid_ssr_body rnd exp_d m = stream_step (sigmoid_ssr_elem rnd exp_d) m ra rb"
proof -
  let ?e = "exp_d (fneg (arr_mem m ! unat (dm_base (dm0 m) + dm_pos (dm0 m))))"
  have "sigmoid_ssr_body rnd exp_d m
      = stream_step (sigmoid_ssr_elem rnd exp_d) m (fadd rnd (fdiv rnd ?e ?e) ?e) (fdiv rnd ?e ?e)"
    using assms
    by (auto simp: sigmoid_ssr_body_def stream_step_def read_ft0_def write_ft1_def Let_def
        snrt_ssr_disable_def snrt_ssr_enable_def call_def sigmoid_ssr_elem_def
        intro!: machine.equality)
  then show ?thesis by blast
qed


lemma stream_loop_partial:
  fixes body :: "'f machine \<Rightarrow> 'f machine option"
  assumes step: "\<And>m. ssr_on m \<Longrightarrow> \<exists>ra rb. body m = stream_step g m ra rb"
    and run: "for_loop 0 L (\<lambda>i. body) m = Some m'"
    and on: "ssr_on m"
    and pos: "dm_pos (dm0 m) = 0" "dm_pos (dm1 m) = 0"
    and base: "dm_base (dm0 m) = b" "dm_base (dm1 m) = b"
  shows "writes_only ((\<lambda>j. unat (b + j)) ` {j. j < L}) g m m'
     \<and> ssr_on m' \<and> dm0 m' = (dm0 m)\<lparr>dm_pos := L\<rparr> \<and> dm1 m' = (dm1 m)\<lparr>dm_pos := L\<rparr>
     \<and> (\<forall>j < L. unat (b + j) < length (arr_mem m) \<and> unat (b + j) < length (result_mem m))"
proof -
  define I where "I j t \<longleftrightarrow>
      writes_only ((\<lambda>j. unat (b + j)) ` {j'. j' < j}) g m t
     \<and> ssr_on t \<and> dm0 t = (dm0 m)\<lparr>dm_pos := j\<rparr> \<and> dm1 t = (dm1 m)\<lparr>dm_pos := j\<rparr>
     \<and> (\<forall>j' < j. unat (b + j') < length (arr_mem m) \<and> unat (b + j') < length (result_mem m))"
    for j :: size_t and t :: "'f machine"
  have d0: "(dm0 m)\<lparr>dm_pos := 0\<rparr> = dm0 m" using pos(1) by (metis data_mover.surjective data_mover.update_convs(6))
  have d1: "(dm1 m)\<lparr>dm_pos := 0\<rparr> = dm1 m" using pos(2) by (metis data_mover.surjective data_mover.update_convs(6))
  have init: "I 0 m" using on by (simp add: I_def writes_only_def d0 d1)
  have "I L m'"
  proof (rule for_loop_partial_rule [OF run, where I = I, OF init])
    show "0 \<le> L" by simp
  next
    fix j t t'
    assume j: "j < L" and It: "I j t" and b: "body t = Some t'"
    let ?p = "unat (b + j)"
    from It have am: "arr_mem t = arr_mem m" and len: "length (result_mem t) = length (result_mem m)"
      and ont: "ssr_on t" and t0: "dm0 t = (dm0 m)\<lparr>dm_pos := j\<rparr>" and t1: "dm1 t = (dm1 m)\<lparr>dm_pos := j\<rparr>"
      by (simp_all add: I_def writes_only_def)
    from step [OF ont] b obtain ra rb where st: "stream_step g t ra rb = Some t'" by auto
    from st have ok: "?p < length (arr_mem t)" "?p < length (result_mem t)"
      and t': "t' = t\<lparr>result_mem := (result_mem t)[?p := g (arr_mem t ! ?p)],
                      dm0 := (dm0 m)\<lparr>dm_pos := j + 1\<rparr>,
                      dm1 := (dm1 m)\<lparr>dm_pos := j + 1\<rparr>, fa0 := ra, ft2 := rb\<rparr>"
      by (auto simp: stream_step_def Let_def t0 t1 base split: if_splits)
    have w: "writes_only ((\<lambda>j. unat (b + j)) ` {j'. j' < j + 1}) g m t'"
      using It ok am len
      by (auto simp: I_def writes_only_def t' image_less_plus_one [OF j] nth_list_update)
    have bs: "\<forall>j' < j + 1. unat (b + j') < length (arr_mem m) \<and> unat (b + j') < length (result_mem m)"
      using It ok am len by (auto simp: I_def less_plus_one_iff [OF j])
    show "I (j + 1) t'" using w bs ont by (simp add: I_def t')
  qed
  then show ?thesis by (simp add: I_def)
qed

lemma stream_loop_total:
  fixes body :: "'f machine \<Rightarrow> 'f machine option"
  assumes step: "\<And>m. ssr_on m \<Longrightarrow> \<exists>ra rb. body m = stream_step g m ra rb"
    and on: "ssr_on m"
    and pos: "dm_pos (dm0 m) = 0" "dm_pos (dm1 m) = 0"
    and base: "dm_base (dm0 m) = b" "dm_base (dm1 m) = b"
    and dir: "\<not> dm_write (dm0 m)" "dm_write (dm1 m)"
    and bnd: "L \<le> dm_bound (dm0 m)" "L \<le> dm_bound (dm1 m)"
    and bounds: "\<And>j. j < L \<Longrightarrow> unat (b + j) < length (arr_mem m) \<and> unat (b + j) < length (result_mem m)"
  shows "\<exists>m'. for_loop 0 L (\<lambda>i. body) m = Some m'"
proof -
  define I where "I j t \<longleftrightarrow>
      arr_mem t = arr_mem m \<and> length (result_mem t) = length (result_mem m)
     \<and> ssr_on t \<and> dm0 t = (dm0 m)\<lparr>dm_pos := j\<rparr> \<and> dm1 t = (dm1 m)\<lparr>dm_pos := j\<rparr>"
    for j :: size_t and t :: "'f machine"
  have d0: "(dm0 m)\<lparr>dm_pos := 0\<rparr> = dm0 m" using pos(1) by (metis data_mover.surjective data_mover.update_convs(6))
  have d1: "(dm1 m)\<lparr>dm_pos := 0\<rparr> = dm1 m" using pos(2) by (metis data_mover.surjective data_mover.update_convs(6))
  have "\<exists>m'. for_loop 0 L (\<lambda>i. body) m = Some m' \<and> I L m'"
  proof (rule for_loop_rule [where I = I])
    show "I 0 m" using on by (simp add: I_def d0 d1)
    show "0 \<le> L" by simp
  next
    fix j t
    assume j: "j < L" and It: "I j t"
    then have ont: "ssr_on t" by (simp add: I_def)
    from step [OF ont] obtain ra rb where st: "body t = stream_step g t ra rb" by blast
    have jb: "j < dm_bound (dm0 m)" "j < dm_bound (dm1 m)" using j bnd by auto
    show "\<exists>t'. body t = Some t' \<and> I (j + 1) t'"
      using It bounds [OF j] dir jb
      by (simp add: st stream_step_def Let_def I_def base)
  qed
  then show ?thesis by blast
qed


section \<open>The kernels, one by one\<close>

subsection \<open>What a call that returns has done\<close>

lemma unat_image_below: "unat ` {j :: size_t. j < n} = {..< unat n}"
proof (rule set_eqI)
  fix k
  show "k \<in> unat ` {j :: size_t. j < n} \<longleftrightarrow> k \<in> {..< unat n}"
  proof
    assume "k \<in> unat ` {j :: size_t. j < n}"
    then show "k \<in> {..< unat n}" by (auto simp: word_less_nat_alt)
  next
    assume "k \<in> {..< unat n}"
    then have k: "k < unat n" by simp
    with unat_size_t_less [of n] have "unat (of_nat k :: size_t) = k"
      by (simp add: unat_of_nat)
    with k show "k \<in> unat ` {j :: size_t. j < n}"
      by (metis (mono_tags, lifting) image_eqI mem_Collect_eq word_less_nat_alt)
  qed
qed

lemma scalar_body_step:
  "do { x \<leftarrow> load_arr k m; store_result k (g x) m } =
     (if unat k < length (arr_mem m) \<and> unat k < length (result_mem m) \<and> True
      then Some (m\<lparr>result_mem := (result_mem m)[unat k := g (arr_mem m ! unat k)]\<rparr>)
      else None)"
  by (simp add: load_arr_def store_result_def)

lemma writes_only_cong:
  "arr_mem m0 = arr_mem m \<Longrightarrow> result_mem m0 = result_mem m \<Longrightarrow>
   arr_mem t' = arr_mem t \<Longrightarrow> result_mem t' = result_mem t \<Longrightarrow>
   writes_only W g m0 t \<Longrightarrow> writes_only W g m t'"
  by (simp add: writes_only_def)

lemma writes_only_trans:
  "writes_only W1 g m m1 \<Longrightarrow> writes_only W2 g m1 m2 \<Longrightarrow> writes_only (W1 \<union> W2) g m m2"
  by (auto simp: writes_only_def)

lemma writes_only_refl: "writes_only {} g m m"
  by (simp add: writes_only_def)

lemma scalar_kernel_post:
  fixes body :: "size_t \<Rightarrow> 'f machine \<Rightarrow> 'f machine option"
  assumes step: "\<And>j m. body j m =
      (if unat j < length (arr_mem m) \<and> unat j < length (result_mem m) \<and> ok (arr_mem m ! unat j)
       then Some (m\<lparr>result_mem := (result_mem m)[unat j := g (arr_mem m ! unat j)]\<rparr>)
       else None)"
    and run: "do { m \<leftarrow> for_loop 0 n body m; Some (m, st) } = Some (m', r)"
  shows "writes_only {..< unat n} g m m' \<and> {..< unat n} \<subseteq> {..< length (result_mem m)}
     \<and> r = st \<and> (\<forall>k < unat n. k < length (arr_mem m) \<and> ok (arr_mem m ! k))"
proof -
  from run have t: "for_loop 0 n body m = Some m'" and r: "r = st"
    by (auto split: Option.bind_splits)
  from scalar_loop_partial [where idx = "\<lambda>j. j" and ok = ok and g = g and body = body, OF step t]
  have w: "writes_only (unat ` {j. j < n}) g m m'"
    and b: "\<forall>j < n. unat j < length (arr_mem m) \<and> unat j < length (result_mem m) \<and> ok (arr_mem m ! unat j)"
    by simp_all
  have "\<forall>k < unat n. k < length (arr_mem m) \<and> k < length (result_mem m) \<and> ok (arr_mem m ! k)"
  proof (intro allI impI)
    fix k assume "k < unat n"
    then have "k \<in> unat ` {j. j < n}" by (simp add: unat_image_below)
    then obtain j where "j < n" "k = unat j" by auto
    with b show "k < length (arr_mem m) \<and> k < length (result_mem m) \<and> ok (arr_mem m ! k)" by simp
  qed
  then have all: "\<forall>k < unat n. k < length (arr_mem m) \<and> k < length (result_mem m) \<and> ok (arr_mem m ! k)" .
  have "unat n \<le> length (result_mem m)"
  proof (rule ccontr)
    assume "\<not> unat n \<le> length (result_mem m)"
    then have "length (result_mem m) < unat n" by simp
    with all show False by blast
  qed
  with w r all show ?thesis by (simp add: unat_image_below)
qed

lemma sin_baseline_post:
  assumes "sin_baseline sinf n m = Some (m', r)"
  shows "writes_only {..< unat n} sinf m m' \<and> {..< unat n} \<subseteq> {..< length (result_mem m)}
     \<and> r = Return 0"
  using scalar_kernel_post [where ok = "\<lambda>x. True" and g = sinf, OF scalar_body_step [of _ _ sinf]
      assms [unfolded sin_baseline_def]]
  by simp

lemma sin_omp_post:
  assumes "sin_omp sinf n m = Some (m', r)"
  shows "writes_only {..< unat n} sinf m m' \<and> {..< unat n} \<subseteq> {..< length (result_mem m)}
     \<and> r = Return 0"
  using scalar_kernel_post [where ok = "\<lambda>x. True" and g = sinf, OF scalar_body_step [of _ _ sinf]
      assms [unfolded sin_omp_def]]
  by simp

lemma sigmoid_baseline_post:
  assumes "sigmoid_baseline rnd exp_d n m = Some (m', r)"
  shows "writes_only {..< unat n} (sigmoid_elem rnd exp_d) m m'
     \<and> {..< unat n} \<subseteq> {..< length (result_mem m)} \<and> r = Return 0"
proof -
  have step: "\<And>j m. do { x \<leftarrow> load_arr j m;
         store_result j (fdiv rnd (Fin 1) (fadd rnd (Fin 1) (exp_d (fneg x)))) m } =
     (if unat j < length (arr_mem m) \<and> unat j < length (result_mem m) \<and> True
      then Some (m\<lparr>result_mem := (result_mem m)[unat j := sigmoid_elem rnd exp_d (arr_mem m ! unat j)]\<rparr>)
      else None)"
    by (simp add: load_arr_def store_result_def sigmoid_elem_def)
  from scalar_kernel_post [where ok = "\<lambda>x. True" and g = "sigmoid_elem rnd exp_d", OF step
      assms [unfolded sigmoid_baseline_def]]
  show ?thesis by simp
qed

lemma lookup_table_post:
  assumes "sin_baseline_lookup_table rnd_d rnd_s n tab sz m = Some (m', r)"
  shows "writes_only {..< unat n} (\<lambda>x. the (lookup_value rnd_s (lookup_factor rnd_d rnd_s sz) tab x)) m m'
     \<and> {..< unat n} \<subseteq> {..< length (result_mem m)} \<and> r = NoReturnValue
     \<and> (\<forall>k < unat n. k < length (arr_mem m)
           \<and> lookup_value rnd_s (lookup_factor rnd_d rnd_s sz) tab (arr_mem m ! k) \<noteq> None)"
proof -
  let ?f = "lookup_factor rnd_d rnd_s sz"
  have step: "\<And>j m. do { x \<leftarrow> load_arr j m; k \<leftarrow> lookup_index rnd_s x ?f;
         v \<leftarrow> load_table tab k; store_result j v m } =
     (if unat j < length (arr_mem m) \<and> unat j < length (result_mem m)
         \<and> lookup_value rnd_s ?f tab (arr_mem m ! unat j) \<noteq> None
      then Some (m\<lparr>result_mem := (result_mem m)[unat j :=
              the (lookup_value rnd_s ?f tab (arr_mem m ! unat j))]\<rparr>)
      else None)"
    by (auto simp: load_arr_def store_result_def lookup_value_def split: Option.bind_splits)
  from scalar_kernel_post [where ok = "\<lambda>x. lookup_value rnd_s ?f tab x \<noteq> None"
      and g = "\<lambda>x. the (lookup_value rnd_s ?f tab x)", OF step
      assms [unfolded sin_baseline_lookup_table_def Let_def]]
  show ?thesis by simp
qed


lemmas snrt_defs = snrt_ssr_loop_1d_def snrt_ssr_repeat_def snrt_ssr_read_def snrt_ssr_write_def
  snrt_ssr_enable_def snrt_ssr_disable_def

lemma stream_region_post:
  fixes body :: "'f machine \<Rightarrow> 'f machine option"
  assumes step: "\<And>m. ssr_on m \<Longrightarrow> \<exists>ra rb. body m = stream_step g m ra rb"
    and run: "for_loop 0 L (\<lambda>i. body) m0 = Some t"
    and on: "ssr_on m0"
    and pos: "dm_pos (dm0 m0) = 0" "dm_pos (dm1 m0) = 0"
    and base: "dm_base (dm0 m0) = b" "dm_base (dm1 m0) = b"
    and mems: "arr_mem m0 = arr_mem m" "result_mem m0 = result_mem m"
  shows "writes_only ((\<lambda>j. unat (b + j)) ` {j. j < L}) g m (snrt_ssr_disable t)
     \<and> (\<forall>j < L. unat (b + j) < length (arr_mem m) \<and> unat (b + j) < length (result_mem m))
     \<and> dm0 (snrt_ssr_disable t) = (dm0 m0)\<lparr>dm_pos := L\<rparr>
     \<and> dm1 (snrt_ssr_disable t) = (dm1 m0)\<lparr>dm_pos := L\<rparr>"
proof -
  from stream_loop_partial [OF step run on pos base]
  have w: "writes_only ((\<lambda>j. unat (b + j)) ` {j. j < L}) g m0 t"
    and d: "dm0 t = (dm0 m0)\<lparr>dm_pos := L\<rparr>" "dm1 t = (dm1 m0)\<lparr>dm_pos := L\<rparr>"
    and bs: "\<forall>j < L. unat (b + j) < length (arr_mem m0) \<and> unat (b + j) < length (result_mem m0)"
    by simp_all
  have "writes_only ((\<lambda>j. unat (b + j)) ` {j. j < L}) g m (snrt_ssr_disable t)"
    by (rule writes_only_cong [OF mems _ _ w]) (simp_all add: snrt_ssr_disable_def)
  then show ?thesis using d bs mems by (simp add: snrt_ssr_disable_def)
qed

lemma sin_ssr_post:
  assumes "sin_ssr sinf n m = Some (m', r)"
  shows "writes_only {..< unat n} sinf m m' \<and> {..< unat n} \<subseteq> {..< length (result_mem m)}
     \<and> r = Return 0
     \<and> dm_bound (dm0 m') = n \<and> dm_pos (dm0 m') = n \<and> dm_bound (dm1 m') = n \<and> dm_pos (dm1 m') = n"
proof -
  define m0 where "m0 = snrt_ssr_enable (snrt_ssr_write SNRT_SSR_DM1 0 (snrt_ssr_repeat SNRT_SSR_DM1 1
      (snrt_ssr_loop_1d SNRT_SSR_DM1 n 4 (snrt_ssr_read SNRT_SSR_DM0 0 (snrt_ssr_repeat SNRT_SSR_DM0 1
      (snrt_ssr_loop_1d SNRT_SSR_DM0 n 4 m))))))"
  from assms obtain t where t: "for_loop 0 n (\<lambda>i. sin_ssr_body sinf) m0 = Some t"
    and m': "m' = snrt_ssr_disable t" and r: "r = Return 0"
    by (auto simp: sin_ssr_def m0_def Let_def split: Option.bind_splits)
  have props: "ssr_on m0" "dm_pos (dm0 m0) = 0" "dm_pos (dm1 m0) = 0"
    "dm_base (dm0 m0) = 0" "dm_base (dm1 m0) = 0" "arr_mem m0 = arr_mem m" "result_mem m0 = result_mem m"
    "dm_bound (dm0 m0) = n" "dm_bound (dm1 m0) = n"
    by (simp_all add: m0_def snrt_defs)
  from stream_region_post [OF sin_ssr_body_step t props(1-7)]
  have w: "writes_only (unat ` {j. j < n}) sinf m m'"
    and bs: "\<forall>j < n. unat j < length (result_mem m)"
    and d: "dm0 m' = (dm0 m0)\<lparr>dm_pos := n\<rparr>" "dm1 m' = (dm1 m0)\<lparr>dm_pos := n\<rparr>"
    by (simp_all add: m')
  have "\<forall>k < unat n. k < length (result_mem m)"
  proof (intro allI impI)
    fix k assume "k < unat n"
    then have "k \<in> unat ` {j. j < n}" by (simp add: unat_image_below)
    with bs show "k < length (result_mem m)" by auto
  qed
  then have "unat n \<le> length (result_mem m)"
    by (metis less_irrefl not_le_imp_less)
  then show ?thesis using w r d props(8,9) by (simp add: unat_image_below)
qed


lemma below_unat_bound:
  assumes "\<forall>j < (n :: size_t). unat j < len"
  shows "unat n \<le> len"
proof (rule ccontr)
  assume "\<not> unat n \<le> len"
  then have "len \<in> {..< unat n}" by simp
  then have "len \<in> unat ` {j. j < n}" by (simp only: unat_image_below)
  with assms show False by auto
qed

lemma sigmoid_ssr_post:
  assumes "sigmoid_ssr rnd exp_d n m = Some (m', r)"
  shows "writes_only {..< unat n} (sigmoid_ssr_elem rnd exp_d) m m'
     \<and> {..< unat n} \<subseteq> {..< length (result_mem m)} \<and> r = Return 0
     \<and> dm_bound (dm0 m') = n \<and> dm_pos (dm0 m') = n \<and> dm_bound (dm1 m') = n \<and> dm_pos (dm1 m') = n"
proof -
  define m0 where "m0 = snrt_ssr_enable (snrt_ssr_write SNRT_SSR_DM1 0 (snrt_ssr_repeat SNRT_SSR_DM1 1
      (snrt_ssr_loop_1d SNRT_SSR_DM1 n 8 (snrt_ssr_read SNRT_SSR_DM0 0 (snrt_ssr_repeat SNRT_SSR_DM0 1
      (snrt_ssr_loop_1d SNRT_SSR_DM0 n 8 m))))))"
  from assms obtain t where t: "for_loop 0 n (\<lambda>i. sigmoid_ssr_body rnd exp_d) m0 = Some t"
    and m': "m' = snrt_ssr_disable t" and r: "r = Return 0"
    by (auto simp: sigmoid_ssr_def m0_def Let_def split: Option.bind_splits)
  have props: "ssr_on m0" "dm_pos (dm0 m0) = 0" "dm_pos (dm1 m0) = 0"
    "dm_base (dm0 m0) = 0" "dm_base (dm1 m0) = 0" "arr_mem m0 = arr_mem m" "result_mem m0 = result_mem m"
    "dm_bound (dm0 m0) = n" "dm_bound (dm1 m0) = n"
    by (simp_all add: m0_def snrt_defs)
  from stream_region_post [OF sigmoid_ssr_body_step t props(1-7)]
  have w: "writes_only (unat ` {j. j < n}) (sigmoid_ssr_elem rnd exp_d) m m'"
    and bs: "\<forall>j < n. unat j < length (result_mem m)"
    and d: "dm0 m' = (dm0 m0)\<lparr>dm_pos := n\<rparr>" "dm1 m' = (dm1 m0)\<lparr>dm_pos := n\<rparr>"
    by (simp_all add: m')
  from below_unat_bound [OF bs] show ?thesis using w r d props(8,9) by (simp add: unat_image_below)
qed

lemma sin_ssr_frep_post:
  assumes "sin_ssr_frep sinf n m = Some (m', r)"
  shows "writes_only {..< unat n} sinf m m' \<and> {..< unat n} \<subseteq> {..< length (result_mem m)}
     \<and> r = Return 0"
proof -
  from assms obtain r0 where "sin_ssr sinf n m = Some (m', r0)" and r: "r = Return 0"
    by (auto simp: sin_ssr_frep_def split: Option.bind_splits)
  from sin_ssr_post [OF this(1)] r show ?thesis by simp
qed

lemma sin_ssr_lookup_table_post:
  assumes "sin_ssr_lookup_table rnd_d rnd_s n tab sz m = Some (m', r)"
  shows "writes_only {} g m m' \<and> r = Return 0 \<and> result_mem m' = result_mem m
     \<and> dm_pos (dm0 m') = 0 \<and> dm_pos (dm1 m') = 0 \<and> dm_bound (dm0 m') = n \<and> dm_bound (dm1 m') = n"
  using assms by (auto simp: sin_ssr_lookup_table_def Let_def snrt_defs writes_only_def)

lemma sigmoid_ssr_frep_post:
  assumes "sigmoid_ssr_frep n m = Some (m', r)"
  shows "writes_only {} g m m' \<and> r = Return 0"
  using assms by (auto simp: sigmoid_ssr_frep_def writes_only_def)

lemma of_nat_image_below: "of_nat ` {0 ..< unat (n :: size_t)} = {j. j < n}"
proof (rule set_eqI)
  fix j :: size_t
  show "j \<in> of_nat ` {0 ..< unat n} \<longleftrightarrow> j \<in> {j. j < n}"
  proof
    assume "j \<in> of_nat ` {0 ..< unat n}"
    then obtain k where k: "k < unat n" "j = of_nat k" by auto
    with unat_size_t_less [of n] have "unat j = k" by (simp add: unat_of_nat)
    with k show "j \<in> {j. j < n}" by (simp add: word_less_nat_alt)
  next
    assume "j \<in> {j. j < n}"
    then have "unat j < unat n" by (simp add: word_less_nat_alt)
    moreover have "j = of_nat (unat j)" by simp
    ultimately show "j \<in> of_nat ` {0 ..< unat n}" by (metis atLeastLessThan_iff image_eqI zero_le)
  qed
qed

lemma core_indices_set:
  "set (map unat (core_indices n cn ci)) =
     (\<lambda>j. unat (local_index ci (local_n_of n cn) j)) ` {j. j < local_n_of n cn}
     \<union> (if do_extra_of n cn ci then {unat (extra_index_of n cn ci)} else {})"
proof -
  have "(\<lambda>i. unat (local_index ci (local_n_of n cn) (of_nat i))) ` {0 ..< unat (local_n_of n cn)}
      = (\<lambda>j. unat (local_index ci (local_n_of n cn) j)) ` (of_nat ` {0 ..< unat (local_n_of n cn)})"
    by (simp add: image_image)
  then show ?thesis
    by (simp add: core_indices_def Let_def of_nat_image_below image_image)
qed

lemma sin_extra_post:
  assumes "sin_extra sinf n cn ci m = Some m'"
  shows "writes_only (if do_extra_of n cn ci then {unat (extra_index_of n cn ci)} else {}) sinf m m'
     \<and> (do_extra_of n cn ci \<longrightarrow> unat (extra_index_of n cn ci) < length (arr_mem m)
           \<and> unat (extra_index_of n cn ci) < length (result_mem m))"
  using assms
  by (auto simp: sin_extra_def load_arr_def store_result_def writes_only_def nth_list_update
      split: if_splits Option.bind_splits)

lemma sin_parallel_post:
  assumes "sin_parallel sinf n cn ci m = Some (m', r)"
  shows "writes_only (set (map unat (core_indices n cn ci))) sinf m m'
     \<and> set (map unat (core_indices n cn ci)) \<subseteq> {..< length (result_mem m)} \<and> r = Return 0"
proof -
  let ?L = "local_n_of n cn"
  from assms obtain t where
    t: "for_loop 0 ?L (\<lambda>i m. do { x \<leftarrow> load_arr (local_index ci ?L i) m;
            store_result (local_index ci ?L i) (sinf x) m }) m = Some t"
    and e: "sin_extra sinf n cn ci t = Some m'" and r: "r = Return 0"
    by (auto simp: sin_parallel_def Let_def split: if_splits Option.bind_splits)
  from scalar_loop_partial [where idx = "local_index ci ?L" and ok = "\<lambda>x. True" and g = sinf,
      OF scalar_body_step t]
  have w1: "writes_only ((\<lambda>j. unat (local_index ci ?L j)) ` {j. j < ?L}) sinf m t"
    and b1: "\<forall>j < ?L. unat (local_index ci ?L j) < length (result_mem m)"
    by simp_all
  from sin_extra_post [OF e]
  have w2: "writes_only (if do_extra_of n cn ci then {unat (extra_index_of n cn ci)} else {}) sinf t m'"
    and b2: "do_extra_of n cn ci \<longrightarrow> unat (extra_index_of n cn ci) < length (result_mem t)"
    by simp_all
  have len: "length (result_mem t) = length (result_mem m)" using w1 by (simp add: writes_only_def)
  from writes_only_trans [OF w1 w2] have "writes_only (set (map unat (core_indices n cn ci))) sinf m m'"
    by (simp only: core_indices_set)
  moreover have "set (map unat (core_indices n cn ci)) \<subseteq> {..< length (result_mem m)}"
    using b1 b2 len by (auto simp only: core_indices_set split: if_splits)
  ultimately show ?thesis using r by simp
qed


lemma local_index_base: "local_index ci L 0 + j = local_index ci L j"
  by (simp add: local_index_def)

lemma partitioned_stream_post:
  assumes t: "for_loop 0 (local_n_of n cn) (\<lambda>i. sin_ssr_body sinf) m0 = Some t"
    and e: "sin_extra sinf n cn ci (snrt_ssr_disable t) = Some m'"
    and props: "ssr_on m0" "dm_pos (dm0 m0) = 0" "dm_pos (dm1 m0) = 0"
      "dm_base (dm0 m0) = local_index ci (local_n_of n cn) 0"
      "dm_base (dm1 m0) = local_index ci (local_n_of n cn) 0"
      "arr_mem m0 = arr_mem m" "result_mem m0 = result_mem m"
  shows "writes_only (set (map unat (core_indices n cn ci))) sinf m m'
     \<and> set (map unat (core_indices n cn ci)) \<subseteq> {..< length (result_mem m)}
     \<and> dm0 m' = (dm0 m0)\<lparr>dm_pos := local_n_of n cn\<rparr>
     \<and> dm1 m' = (dm1 m0)\<lparr>dm_pos := local_n_of n cn\<rparr>"
proof -
  let ?L = "local_n_of n cn"
  let ?t = "snrt_ssr_disable t"
  from stream_region_post [OF sin_ssr_body_step t props]
  have w1: "writes_only ((\<lambda>j. unat (local_index ci ?L j)) ` {j. j < ?L}) sinf m ?t"
    and b1: "\<forall>j < ?L. unat (local_index ci ?L j) < length (result_mem m)"
    and d: "dm0 ?t = (dm0 m0)\<lparr>dm_pos := ?L\<rparr>" "dm1 ?t = (dm1 m0)\<lparr>dm_pos := ?L\<rparr>"
    by (simp_all add: local_index_base)
  from sin_extra_post [OF e]
  have w2: "writes_only (if do_extra_of n cn ci then {unat (extra_index_of n cn ci)} else {}) sinf ?t m'"
    and b2: "do_extra_of n cn ci \<longrightarrow> unat (extra_index_of n cn ci) < length (result_mem ?t)"
    by simp_all
  have dm: "dm0 m' = dm0 ?t" "dm1 m' = dm1 ?t"
    using e by (auto simp: sin_extra_def store_result_def split: if_splits Option.bind_splits)
  have len: "length (result_mem ?t) = length (result_mem m)" using w1 by (simp add: writes_only_def)
  from writes_only_trans [OF w1 w2] have "writes_only (set (map unat (core_indices n cn ci))) sinf m m'"
    by (simp only: core_indices_set)
  moreover have "set (map unat (core_indices n cn ci)) \<subseteq> {..< length (result_mem m)}"
    using b1 b2 len by (auto simp only: core_indices_set split: if_splits)
  ultimately show ?thesis using d dm by simp
qed

lemma sin_ssr_parallel_post:
  assumes "sin_ssr_parallel sinf n cn ci m = Some (m', r)"
  shows "writes_only (set (map unat (core_indices n cn ci))) sinf m m'
     \<and> set (map unat (core_indices n cn ci)) \<subseteq> {..< length (result_mem m)} \<and> r = Return 0
     \<and> dm_bound (dm0 m') = local_n_of n cn \<and> dm_pos (dm0 m') = local_n_of n cn
     \<and> dm_bound (dm1 m') = local_n_of n cn \<and> dm_pos (dm1 m') = local_n_of n cn"
proof -
  let ?L = "local_n_of n cn"
  define m0 where "m0 = snrt_ssr_enable (snrt_ssr_write SNRT_SSR_DM1 (ci * ?L)
      (snrt_ssr_loop_1d SNRT_SSR_DM1 ?L 4 (snrt_ssr_read SNRT_SSR_DM0 (ci * ?L)
      (snrt_ssr_loop_1d SNRT_SSR_DM0 ?L 4 m))))"
  from assms obtain t where t: "for_loop 0 ?L (\<lambda>i. sin_ssr_body sinf) m0 = Some t"
    and e: "sin_extra sinf n cn ci (snrt_ssr_disable t) = Some m'" and r: "r = Return 0"
    by (auto simp: sin_ssr_parallel_def m0_def Let_def split: if_splits Option.bind_splits)
  have props: "ssr_on m0" "dm_pos (dm0 m0) = 0" "dm_pos (dm1 m0) = 0"
    "dm_base (dm0 m0) = local_index ci ?L 0" "dm_base (dm1 m0) = local_index ci ?L 0"
    "arr_mem m0 = arr_mem m" "result_mem m0 = result_mem m"
    and bnd: "dm_bound (dm0 m0) = ?L" "dm_bound (dm1 m0) = ?L"
    by (simp_all add: m0_def snrt_defs local_index_def)
  from partitioned_stream_post [OF t e props] r bnd show ?thesis by simp
qed

lemma sin_ssr_omp_post:
  assumes "sin_ssr_omp sinf n cn ci m = Some (m', r)"
  shows "writes_only (set (map unat (core_indices n cn ci))) sinf m m'
     \<and> set (map unat (core_indices n cn ci)) \<subseteq> {..< length (result_mem m)} \<and> r = Return 0
     \<and> dm_bound (dm0 m') = local_n_of n cn \<and> dm_pos (dm0 m') = local_n_of n cn
     \<and> dm_bound (dm1 m') = local_n_of n cn + 1 \<and> dm_pos (dm1 m') = local_n_of n cn"
proof -
  let ?L = "local_n_of n cn"
  define m0 where "m0 = snrt_ssr_enable (snrt_ssr_write SNRT_SSR_DM1 (ci * ?L)
      (snrt_ssr_repeat SNRT_SSR_DM1 1 (snrt_ssr_loop_1d SNRT_SSR_DM1 (?L + 1) 4
      (snrt_ssr_read SNRT_SSR_DM0 (ci * ?L)
      (snrt_ssr_repeat SNRT_SSR_DM0 1 (snrt_ssr_loop_1d SNRT_SSR_DM0 ?L 4 m))))))"
  from assms obtain t where t: "for_loop 0 ?L (\<lambda>i. sin_ssr_body sinf) m0 = Some t"
    and e: "sin_extra sinf n cn ci (snrt_ssr_disable t) = Some m'" and r: "r = Return 0"
    by (auto simp: sin_ssr_omp_def m0_def Let_def split: if_splits Option.bind_splits)
  have props: "ssr_on m0" "dm_pos (dm0 m0) = 0" "dm_pos (dm1 m0) = 0"
    "dm_base (dm0 m0) = local_index ci ?L 0" "dm_base (dm1 m0) = local_index ci ?L 0"
    "arr_mem m0 = arr_mem m" "result_mem m0 = result_mem m"
    and bnd: "dm_bound (dm0 m0) = ?L" "dm_bound (dm1 m0) = ?L + 1"
    by (simp_all add: m0_def snrt_defs local_index_def)
  from partitioned_stream_post [OF t e props] r bnd show ?thesis by simp
qed

subsection \<open>Every kernel writes its assigned positions and nothing else\<close>

lemma elem_eqs:
  "elem lib (Sin_baseline n) = lib_sinf lib"
  "elem lib (Sin_ssr n) = lib_sinf lib"
  "elem lib (Sin_ssr_frep n) = lib_sinf lib"
  "elem lib (Sin_parallel n cn ci) = lib_sinf lib"
  "elem lib (Sin_ssr_parallel n cn ci) = lib_sinf lib"
  "elem lib (Sin_omp n) = lib_sinf lib"
  "elem lib (Sin_ssr_omp n cn ci) = lib_sinf lib"
  "elem lib (Sigmoid_baseline n) = sigmoid_elem (rnd_double lib) (lib_exp lib)"
  "elem lib (Sigmoid_ssr n) = sigmoid_ssr_elem (rnd_double lib) (lib_exp lib)"
  "elem lib (Sin_baseline_lookup_table n tab sz) =
     (\<lambda>x. the (lookup_value (rnd_float lib) (lookup_factor (rnd_double lib) (rnd_float lib) sz) tab x))"
  by (rule ext, simp)+


lemma run_kernel_post:
  assumes "run_kernel lib k m = Some (m', r)"
  shows "writes_only (assigned k) (elem lib k) m m' \<and> assigned k \<subseteq> {..< length (result_mem m)}"
proof (cases k)
  case (Sin_baseline n)
  with assms sin_baseline_post [of "lib_sinf lib" n m m' r] show ?thesis by (simp add: elem_eqs)
next
  case (Sin_ssr n)
  with assms sin_ssr_post [of "lib_sinf lib" n m m' r] show ?thesis by (simp add: elem_eqs)
next
  case (Sin_ssr_frep n)
  with assms sin_ssr_frep_post [of "lib_sinf lib" n m m' r] show ?thesis by (simp add: elem_eqs)
next
  case (Sin_parallel n cn ci)
  with assms sin_parallel_post [of "lib_sinf lib" n cn ci m m' r] show ?thesis by (simp add: elem_eqs)
next
  case (Sin_ssr_parallel n cn ci)
  with assms sin_ssr_parallel_post [of "lib_sinf lib" n cn ci m m' r] show ?thesis by (simp add: elem_eqs)
next
  case (Sin_baseline_lookup_table n tab sz)
  with assms lookup_table_post [of "rnd_double lib" "rnd_float lib" n tab sz m m' r] show ?thesis by (simp add: elem_eqs)
next
  case (Sin_omp n)
  with assms sin_omp_post [of "lib_sinf lib" n m m' r] show ?thesis by (simp add: elem_eqs)
next
  case (Sin_ssr_lookup_table n tab sz)
  with assms sin_ssr_lookup_table_post [of "rnd_double lib" "rnd_float lib" n tab sz m m' r] show ?thesis by (simp add: elem_eqs)
next
  case (Sin_ssr_omp n cn ci)
  with assms sin_ssr_omp_post [of "lib_sinf lib" n cn ci m m' r] show ?thesis by (simp add: elem_eqs)
next
  case (Sigmoid_baseline n)
  with assms sigmoid_baseline_post [of "rnd_double lib" "lib_exp lib" n m m' r] show ?thesis by (simp add: elem_eqs)
next
  case (Sigmoid_ssr n)
  with assms sigmoid_ssr_post [of "rnd_double lib" "lib_exp lib" n m m' r] show ?thesis by (simp add: elem_eqs)
next
  case (Sigmoid_ssr_frep n)
  with assms sigmoid_ssr_frep_post [of n m m' r] show ?thesis by (simp add: elem_eqs)
qed


text \<open>
  The status of a call that returns: 0 from every kernel but \<^verbatim>\<open>sin_baseline_lookup_table\<close>,
  which has no \<^verbatim>\<open>return\<close> statement.
\<close>

lemma run_kernel_status:
  assumes "run_kernel lib k m = Some (m', r)"
  shows "r = (case k of Sin_baseline_lookup_table n tab sz \<Rightarrow> NoReturnValue | _ \<Rightarrow> Return 0)"
proof (cases k)
  case (Sin_baseline n)
  with assms sin_baseline_post [of "lib_sinf lib" n m m' r] show ?thesis by simp
next
  case (Sin_ssr n)
  with assms sin_ssr_post [of "lib_sinf lib" n m m' r] show ?thesis by simp
next
  case (Sin_ssr_frep n)
  with assms sin_ssr_frep_post [of "lib_sinf lib" n m m' r] show ?thesis by simp
next
  case (Sin_parallel n cn ci)
  with assms sin_parallel_post [of "lib_sinf lib" n cn ci m m' r] show ?thesis by simp
next
  case (Sin_ssr_parallel n cn ci)
  with assms sin_ssr_parallel_post [of "lib_sinf lib" n cn ci m m' r] show ?thesis by simp
next
  case (Sin_baseline_lookup_table n tab sz)
  with assms lookup_table_post [of "rnd_double lib" "rnd_float lib" n tab sz m m' r] show ?thesis by simp
next
  case (Sin_omp n)
  with assms sin_omp_post [of "lib_sinf lib" n m m' r] show ?thesis by simp
next
  case (Sin_ssr_lookup_table n tab sz)
  with assms sin_ssr_lookup_table_post [of "rnd_double lib" "rnd_float lib" n tab sz m m' r] show ?thesis by simp
next
  case (Sin_ssr_omp n cn ci)
  with assms sin_ssr_omp_post [of "lib_sinf lib" n cn ci m m' r] show ?thesis by simp
next
  case (Sigmoid_baseline n)
  with assms sigmoid_baseline_post [of "rnd_double lib" "lib_exp lib" n m m' r] show ?thesis by simp
next
  case (Sigmoid_ssr n)
  with assms sigmoid_ssr_post [of "rnd_double lib" "lib_exp lib" n m m' r] show ?thesis by simp
next
  case (Sigmoid_ssr_frep n)
  with assms sigmoid_ssr_frep_post [of n m m' r] show ?thesis by simp
qed

subsection \<open>The whole-array kernels return\<close>

lemma scalar_kernel_total:
  fixes body :: "size_t \<Rightarrow> 'f machine \<Rightarrow> 'f machine option"
  assumes step: "\<And>j m. body j m =
      (if unat j < length (arr_mem m) \<and> unat j < length (result_mem m) \<and> ok (arr_mem m ! unat j)
       then Some (m\<lparr>result_mem := (result_mem m)[unat j := g (arr_mem m ! unat j)]\<rparr>)
       else None)"
    and len: "unat n \<le> length (arr_mem m)" "unat n \<le> length (result_mem m)"
    and ok: "\<And>k. k < unat n \<Longrightarrow> ok (arr_mem m ! k)"
  shows "\<exists>m'. do { m \<leftarrow> for_loop 0 n body m; Some (m, st) } = Some (m', st)"
proof -
  have "\<exists>m'. for_loop 0 n body m = Some m'"
  proof (rule scalar_loop_total [where idx = "\<lambda>j. j" and ok = ok and g = g, OF step])
    fix j assume "j < n"
    then have "unat j < unat n" by (simp add: word_less_nat_alt)
    with len ok show "unat j < length (arr_mem m) \<and> unat j < length (result_mem m) \<and> ok (arr_mem m ! unat j)"
      by simp
  qed
  then show ?thesis by auto
qed

lemma sin_baseline_total:
  assumes "unat n \<le> length (arr_mem m)" "unat n \<le> length (result_mem m)"
  shows "\<exists>m'. sin_baseline sinf n m = Some (m', Return 0)"
  unfolding sin_baseline_def
  by (rule scalar_kernel_total [where ok = "\<lambda>x. True" and g = sinf
        and body = "\<lambda>i m. do { x \<leftarrow> load_arr i m; store_result i (sinf x) m }",
        OF scalar_body_step assms]) simp

lemma sin_omp_total:
  assumes "unat n \<le> length (arr_mem m)" "unat n \<le> length (result_mem m)"
  shows "\<exists>m'. sin_omp sinf n m = Some (m', Return 0)"
  unfolding sin_omp_def
  by (rule scalar_kernel_total [where ok = "\<lambda>x. True" and g = sinf
        and body = "\<lambda>i m. do { x \<leftarrow> load_arr i m; store_result i (sinf x) m }",
        OF scalar_body_step assms]) simp

lemma stream_region_total:
  fixes body :: "'f machine \<Rightarrow> 'f machine option"
  assumes step: "\<And>m. ssr_on m \<Longrightarrow> \<exists>ra rb. body m = stream_step g m ra rb"
    and props: "ssr_on m0" "dm_pos (dm0 m0) = 0" "dm_pos (dm1 m0) = 0"
      "dm_base (dm0 m0) = 0" "dm_base (dm1 m0) = 0" "\<not> dm_write (dm0 m0)" "dm_write (dm1 m0)"
      "dm_bound (dm0 m0) = n" "dm_bound (dm1 m0) = n"
    and len: "unat n \<le> length (arr_mem m0)" "unat n \<le> length (result_mem m0)"
  shows "\<exists>t. for_loop 0 n (\<lambda>i. body) m0 = Some t"
proof (rule stream_loop_total [OF step props(1-7)])
  show "n \<le> dm_bound (dm0 m0)" "n \<le> dm_bound (dm1 m0)" using props by simp_all
next
  fix j assume "j < n"
  then have "unat j < unat n" by (simp add: word_less_nat_alt)
  with len show "unat (0 + j) < length (arr_mem m0) \<and> unat (0 + j) < length (result_mem m0)" by simp
qed

lemma sin_ssr_total:
  assumes "unat n \<le> length (arr_mem m)" "unat n \<le> length (result_mem m)"
  shows "\<exists>m'. sin_ssr sinf n m = Some (m', Return 0)"
proof -
  define m0 where "m0 = snrt_ssr_enable (snrt_ssr_write SNRT_SSR_DM1 0 (snrt_ssr_repeat SNRT_SSR_DM1 1
      (snrt_ssr_loop_1d SNRT_SSR_DM1 n 4 (snrt_ssr_read SNRT_SSR_DM0 0 (snrt_ssr_repeat SNRT_SSR_DM0 1
      (snrt_ssr_loop_1d SNRT_SSR_DM0 n 4 m))))))"
  have props: "ssr_on m0" "dm_pos (dm0 m0) = 0" "dm_pos (dm1 m0) = 0"
      "dm_base (dm0 m0) = 0" "dm_base (dm1 m0) = 0" "\<not> dm_write (dm0 m0)" "dm_write (dm1 m0)"
      "dm_bound (dm0 m0) = n" "dm_bound (dm1 m0) = n"
    and len: "unat n \<le> length (arr_mem m0)" "unat n \<le> length (result_mem m0)"
    using assms by (simp_all add: m0_def snrt_defs)
  from stream_region_total [OF sin_ssr_body_step props len]
  obtain t where "for_loop 0 n (\<lambda>i. sin_ssr_body sinf) m0 = Some t" by blast
  then show ?thesis by (simp add: sin_ssr_def Let_def m0_def)
qed

lemma sigmoid_ssr_total:
  assumes "unat n \<le> length (arr_mem m)" "unat n \<le> length (result_mem m)"
  shows "\<exists>m'. sigmoid_ssr rnd exp_d n m = Some (m', Return 0)"
proof -
  define m0 where "m0 = snrt_ssr_enable (snrt_ssr_write SNRT_SSR_DM1 0 (snrt_ssr_repeat SNRT_SSR_DM1 1
      (snrt_ssr_loop_1d SNRT_SSR_DM1 n 8 (snrt_ssr_read SNRT_SSR_DM0 0 (snrt_ssr_repeat SNRT_SSR_DM0 1
      (snrt_ssr_loop_1d SNRT_SSR_DM0 n 8 m))))))"
  have props: "ssr_on m0" "dm_pos (dm0 m0) = 0" "dm_pos (dm1 m0) = 0"
      "dm_base (dm0 m0) = 0" "dm_base (dm1 m0) = 0" "\<not> dm_write (dm0 m0)" "dm_write (dm1 m0)"
      "dm_bound (dm0 m0) = n" "dm_bound (dm1 m0) = n"
    and len: "unat n \<le> length (arr_mem m0)" "unat n \<le> length (result_mem m0)"
    using assms by (simp_all add: m0_def snrt_defs)
  from stream_region_total [OF sigmoid_ssr_body_step props len]
  obtain t where "for_loop 0 n (\<lambda>i. sigmoid_ssr_body rnd exp_d) m0 = Some t" by blast
  then show ?thesis by (simp add: sigmoid_ssr_def Let_def m0_def)
qed

lemma sigmoid_baseline_total:
  assumes "unat n \<le> length (arr_mem m)" "unat n \<le> length (result_mem m)"
  shows "\<exists>m'. sigmoid_baseline rnd exp_d n m = Some (m', Return 0)"
proof -
  have step: "\<And>j m. do { x \<leftarrow> load_arr j m;
         store_result j (fdiv rnd (Fin 1) (fadd rnd (Fin 1) (exp_d (fneg x)))) m } =
     (if unat j < length (arr_mem m) \<and> unat j < length (result_mem m) \<and> True
      then Some (m\<lparr>result_mem := (result_mem m)[unat j := sigmoid_elem rnd exp_d (arr_mem m ! unat j)]\<rparr>)
      else None)"
    by (simp add: load_arr_def store_result_def sigmoid_elem_def)
  show ?thesis unfolding sigmoid_baseline_def
    by (rule scalar_kernel_total [where ok = "\<lambda>x. True" and g = "sigmoid_elem rnd exp_d"
          and body = "\<lambda>j m. do { x \<leftarrow> load_arr j m;
            store_result j (fdiv rnd (Fin 1) (fadd rnd (Fin 1) (exp_d (fneg x)))) m }",
          OF step assms]) simp
qed

lemma sin_ssr_frep_total:
  assumes "unat n \<le> length (arr_mem m)" "unat n \<le> length (result_mem m)"
  shows "\<exists>m'. sin_ssr_frep sinf n m = Some (m', Return 0)"
  using sin_ssr_total [OF assms, of sinf] by (auto simp: sin_ssr_frep_def)


subsection \<open>The partitioned kernels return\<close>

lemma local_index_less:
  assumes "ci < cn" and "j < local_n_of n cn"
  shows "unat (local_index ci (local_n_of n cn) j) < unat n"
proof -
  let ?L = "unat n div unat cn"
  have j: "unat j < ?L" using assms(2) by (simp add: word_less_nat_alt unat_local_n)
  have ic: "unat ci < unat cn" using assms(1) by (simp add: word_less_nat_alt)
  have "unat ci * ?L + unat j < unat ci * ?L + ?L" using j by simp
  also have "\<dots> = (unat ci + 1) * ?L" by simp
  also have "\<dots> \<le> unat cn * ?L" using ic by (intro mult_le_mono1) simp
  also have "\<dots> \<le> unat n" by (simp add: mult.commute)
  finally have "unat ci * ?L + unat j < unat n" .
  moreover have "unat (local_index ci (local_n_of n cn) (of_nat (unat j))) = unat ci * ?L + unat j"
    by (rule unat_local_index [OF assms(1) j])
  ultimately show ?thesis by simp
qed

lemma extra_index_less:
  assumes "do_extra_of n cn ci"
  shows "unat (extra_index_of n cn ci) < unat n"
  using assms unat_extra_index [OF assms] by (simp add: do_extra_nat)

lemma sin_extra_total:
  assumes "unat n \<le> length (arr_mem m)" "unat n \<le> length (result_mem m)"
  shows "\<exists>m'. sin_extra sinf n cn ci m = Some m'"
  using assms extra_index_less [of n cn ci]
  by (auto simp: sin_extra_def load_arr_def store_result_def)

lemma sin_parallel_total:
  assumes len: "unat n \<le> length (arr_mem m)" "unat n \<le> length (result_mem m)"
    and ci: "ci < cn"
  shows "\<exists>m'. sin_parallel sinf n cn ci m = Some (m', Return 0)"
proof -
  let ?L = "local_n_of n cn"
  let ?body = "\<lambda>i m. do { x \<leftarrow> load_arr (local_index ci ?L i) m;
            store_result (local_index ci ?L i) (sinf x) m }"
  have "\<exists>t. for_loop 0 ?L ?body m = Some t"
  proof (rule scalar_loop_total [where idx = "local_index ci ?L" and ok = "\<lambda>x. True" and g = sinf
        and body = ?body, OF scalar_body_step])
    fix j assume "j < ?L"
    from local_index_less [OF ci this] len
    show "unat (local_index ci ?L j) < length (arr_mem m) \<and> unat (local_index ci ?L j) < length (result_mem m) \<and> True"
      by simp
  qed
  then obtain t where t: "for_loop 0 ?L ?body m = Some t" by blast
  from scalar_loop_partial [where idx = "local_index ci ?L" and ok = "\<lambda>x. True" and g = sinf
      and body = ?body, OF scalar_body_step t]
  have "arr_mem t = arr_mem m" "length (result_mem t) = length (result_mem m)"
    by (simp_all add: writes_only_def)
  with len sin_extra_total [of n t sinf cn ci] obtain m' where "sin_extra sinf n cn ci t = Some m'"
    by auto
  moreover have "cn \<noteq> 0" using ci by auto
  ultimately show ?thesis using t by (simp add: sin_parallel_def Let_def)
qed

lemma partitioned_stream_total:
  fixes m m0 :: "'f machine"
  assumes len: "unat n \<le> length (arr_mem m)" "unat n \<le> length (result_mem m)"
    and ci: "ci < cn"
    and props: "ssr_on m0" "dm_pos (dm0 m0) = 0" "dm_pos (dm1 m0) = 0"
      "dm_base (dm0 m0) = local_index ci (local_n_of n cn) 0"
      "dm_base (dm1 m0) = local_index ci (local_n_of n cn) 0"
      "\<not> dm_write (dm0 m0)" "dm_write (dm1 m0)"
    and bnd: "local_n_of n cn \<le> dm_bound (dm0 m0)" "local_n_of n cn \<le> dm_bound (dm1 m0)"
    and mems: "arr_mem m0 = arr_mem m" "result_mem m0 = result_mem m"
  shows "\<exists>t m'. for_loop 0 (local_n_of n cn) (\<lambda>i. sin_ssr_body sinf) m0 = Some t
     \<and> sin_extra sinf n cn ci (snrt_ssr_disable t) = Some m'"
proof -
  let ?L = "local_n_of n cn"
  have "\<exists>t. for_loop 0 ?L (\<lambda>i. sin_ssr_body sinf) m0 = Some t"
  proof (rule stream_loop_total [OF sin_ssr_body_step props bnd])
    fix j assume "j < ?L"
    from local_index_less [OF ci this] len mems
    show "unat (local_index ci ?L 0 + j) < length (arr_mem m0)
        \<and> unat (local_index ci ?L 0 + j) < length (result_mem m0)"
      by (simp add: local_index_base)
  qed
  then obtain t where t: "for_loop 0 ?L (\<lambda>i. sin_ssr_body sinf) m0 = Some t" by blast
  from stream_region_post [OF sin_ssr_body_step t props(1-5) mems]
  have "arr_mem (snrt_ssr_disable t) = arr_mem m"
    "length (result_mem (snrt_ssr_disable t)) = length (result_mem m)"
    by (simp_all add: writes_only_def)
  with len sin_extra_total [of n "snrt_ssr_disable t" sinf cn ci] t show ?thesis by auto
qed

lemma sin_ssr_parallel_total:
  assumes len: "unat n \<le> length (arr_mem m)" "unat n \<le> length (result_mem m)"
    and ci: "ci < cn"
  shows "\<exists>m'. sin_ssr_parallel sinf n cn ci m = Some (m', Return 0)"
proof -
  let ?L = "local_n_of n cn"
  define m0 where "m0 = snrt_ssr_enable (snrt_ssr_write SNRT_SSR_DM1 (ci * ?L)
      (snrt_ssr_loop_1d SNRT_SSR_DM1 ?L 4 (snrt_ssr_read SNRT_SSR_DM0 (ci * ?L)
      (snrt_ssr_loop_1d SNRT_SSR_DM0 ?L 4 m))))"
  have props: "ssr_on m0" "dm_pos (dm0 m0) = 0" "dm_pos (dm1 m0) = 0"
    "dm_base (dm0 m0) = local_index ci ?L 0" "dm_base (dm1 m0) = local_index ci ?L 0"
    "\<not> dm_write (dm0 m0)" "dm_write (dm1 m0)"
    and bnd: "?L \<le> dm_bound (dm0 m0)" "?L \<le> dm_bound (dm1 m0)"
    and mems: "arr_mem m0 = arr_mem m" "result_mem m0 = result_mem m"
    by (simp_all add: m0_def snrt_defs local_index_def)
  from partitioned_stream_total [OF len ci props bnd mems, of sinf]
  obtain t m' where "for_loop 0 ?L (\<lambda>i. sin_ssr_body sinf) m0 = Some t"
    "sin_extra sinf n cn ci (snrt_ssr_disable t) = Some m'" by blast
  moreover have "cn \<noteq> 0" using ci by auto
  ultimately show ?thesis by (simp add: sin_ssr_parallel_def Let_def m0_def)
qed

lemma sin_ssr_omp_total:
  assumes len: "unat n \<le> length (arr_mem m)" "unat n \<le> length (result_mem m)"
    and ci: "ci < cn" and fit: "4 * unat n < 2 ^ 32"
  shows "\<exists>m'. sin_ssr_omp sinf n cn ci m = Some (m', Return 0)"
proof -
  let ?L = "local_n_of n cn"
  define m0 where "m0 = snrt_ssr_enable (snrt_ssr_write SNRT_SSR_DM1 (ci * ?L)
      (snrt_ssr_repeat SNRT_SSR_DM1 1 (snrt_ssr_loop_1d SNRT_SSR_DM1 (?L + 1) 4
      (snrt_ssr_read SNRT_SSR_DM0 (ci * ?L)
      (snrt_ssr_repeat SNRT_SSR_DM0 1 (snrt_ssr_loop_1d SNRT_SSR_DM0 ?L 4 m))))))"
  have "unat ?L \<le> unat n" by (simp add: unat_local_n)
  with fit have "unat ?L + unat (1 :: size_t) < 2 ^ LENGTH(32)" by simp
  then have "unat (?L + 1) = unat ?L + unat (1 :: size_t)" by (rule unat_add_lem [THEN iffD1])
  then have le: "?L \<le> ?L + 1" by (simp add: word_le_nat_alt)
  have props: "ssr_on m0" "dm_pos (dm0 m0) = 0" "dm_pos (dm1 m0) = 0"
    "dm_base (dm0 m0) = local_index ci ?L 0" "dm_base (dm1 m0) = local_index ci ?L 0"
    "\<not> dm_write (dm0 m0)" "dm_write (dm1 m0)"
    and bnd: "?L \<le> dm_bound (dm0 m0)" "?L \<le> dm_bound (dm1 m0)"
    and mems: "arr_mem m0 = arr_mem m" "result_mem m0 = result_mem m"
    using le by (simp_all add: m0_def snrt_defs local_index_def)
  from partitioned_stream_total [OF len ci props bnd mems, of sinf]
  obtain t m' where "for_loop 0 ?L (\<lambda>i. sin_ssr_body sinf) m0 = Some t"
    "sin_extra sinf n cn ci (snrt_ssr_disable t) = Some m'" by blast
  moreover have "cn \<noteq> 0" using ci by auto
  ultimately show ?thesis by (simp add: sin_ssr_omp_def Let_def m0_def)
qed


subsection \<open>A partitioned kernel on the whole group\<close>

lemma run_cores_post:
  assumes post: "\<And>c m m' r. c \<in> set cs \<Longrightarrow> k (of_nat c) m = Some (m', r) \<Longrightarrow> writes_only (W c) g m m'"
    and run: "run_cores k cs m = Some m'"
  shows "writes_only (\<Union>c \<in> set cs. W c) g m m'"
  using assms
proof (induction cs arbitrary: m)
  case Nil
  then show ?case by (simp add: writes_only_refl)
next
  case (Cons c cs)
  from Cons.prems(2) obtain t r where t: "k (of_nat c) m = Some (t, r)" and rest: "run_cores k cs t = Some m'"
    by (auto split: option.splits)
  have w1: "writes_only (W c) g m t" using Cons.prems(1) [of c m t r] t by simp
  have w2: "writes_only (\<Union>c \<in> set cs. W c) g t m'"
    by (rule Cons.IH [OF _ rest]) (use Cons.prems(1) in auto)
  from writes_only_trans [OF w1 w2] show ?case by simp
qed

lemma run_cores_total:
  assumes tot: "\<And>c m. c \<in> set cs \<Longrightarrow> P m \<Longrightarrow> \<exists>m' r. k (of_nat c) m = Some (m', r) \<and> P m'"
    and "P m"
  shows "\<exists>m'. run_cores k cs m = Some m'"
  using assms
proof (induction cs arbitrary: m)
  case Nil
  then show ?case by simp
next
  case (Cons c cs)
  from Cons.prems(1) [of c m] Cons.prems(2) obtain t r where t: "k (of_nat c) m = Some (t, r)" and Pt: "P t"
    by auto
  have "\<exists>m'. run_cores k cs t = Some m'"
    by (rule Cons.IH [OF _ Pt]) (use Cons.prems(1) in auto)
  then show ?case using t by simp
qed

lemma all_cores_union:
  "(\<Union>c \<in> set [0 ..< unat cn]. set (map unat (core_indices n cn (of_nat c)))) = set (all_core_indices n cn)"
  by (simp add: all_core_indices_def)

lemma all_cores_set:
  assumes "0 < cn"
  shows "set (all_core_indices n cn) = {..< unat n}"
proof -
  have "set (all_core_indices n cn) = set_mset (mset (all_core_indices n cn))" by simp
  also have "\<dots> = set_mset (mset [0 ..< unat n])"
    by (simp only: all_core_indices_cover [OF assms])
  also have "\<dots> = {..< unat n}" by auto
  finally show ?thesis .
qed

lemma core_of_nat_less:
  assumes "c \<in> set [0 ..< unat (cn :: size_t)]"
  shows "(of_nat c :: size_t) < cn"
proof -
  from assms have c: "c < unat cn" by simp
  with unat_size_t_less [of cn] have "unat (of_nat c :: size_t) = c" by (simp add: unat_of_nat)
  with c show ?thesis by (simp add: word_less_nat_alt)
qed

lemma writes_only_unique:
  assumes "writes_only W g m m1" and "writes_only W g m m2"
  shows "result_mem m1 = result_mem m2"
  using assms by (auto simp: writes_only_def intro!: nth_equalityI)

lemma group_run:
  fixes m :: "'f machine"
  assumes post: "\<And>ci m m' r. k ci m = Some (m', r) \<Longrightarrow>
        writes_only (set (map unat (core_indices n cn ci))) g m m'"
    and tot: "\<And>ci (m :: 'f machine). ci < cn \<Longrightarrow> unat n \<le> length (arr_mem m) \<Longrightarrow> unat n \<le> length (result_mem m)
        \<Longrightarrow> \<exists>m'. k ci m = Some (m', Return 0)"
    and len: "unat n \<le> length (arr_mem m)" "unat n \<le> length (result_mem m)"
    and cn: "0 < cn"
  shows "\<exists>m'. run_cores k [0 ..< unat cn] m = Some m' \<and> writes_only {..< unat n} g m m'"
proof -
  define P where "P t \<longleftrightarrow> unat n \<le> length (arr_mem t) \<and> unat n \<le> length (result_mem t)"
    for t :: "'f machine"
  have "\<exists>m'. run_cores k [0 ..< unat cn] m = Some m'"
  proof (rule run_cores_total [where P = P])
    show "P m" using len by (simp add: P_def)
  next
    fix c t assume c: "c \<in> set [0 ..< unat cn]" and "P t"
    then have lt: "unat n \<le> length (arr_mem t)" "unat n \<le> length (result_mem t)" by (simp_all add: P_def)
    from tot [OF core_of_nat_less [OF c] lt] obtain t' where t': "k (of_nat c) t = Some (t', Return 0)" by blast
    from post [OF t'] lt have "P t'" by (simp add: P_def writes_only_def)
    with t' show "\<exists>m' r. k (of_nat c) t = Some (m', r) \<and> P m'" by blast
  qed
  then obtain m' where m': "run_cores k [0 ..< unat cn] m = Some m'" by blast
  have "writes_only (\<Union>c \<in> set [0 ..< unat cn]. set (map unat (core_indices n cn (of_nat c)))) g m m'"
    by (rule run_cores_post [OF _ m']) (rule post)
  then have "writes_only {..< unat n} g m m'"
    by (simp only: all_cores_union all_cores_set [OF cn])
  with m' show ?thesis by blast
qed

lemma run_sine_strategy_post:
  fixes m :: "'f machine"
  assumes len: "unat n \<le> length (arr_mem m)" "unat n \<le> length (result_mem m)"
    and cn: "0 < core_num" and fit: "4 * unat n < 2 ^ 32"
  shows "\<exists>m'. run_sine_strategy sinf S n core_num m = Some m' \<and> writes_only {..< unat n} sinf m m'"
proof (cases S)
  case Ssr
  from sin_ssr_total [OF len, of sinf] obtain m' where r: "sin_ssr sinf n m = Some (m', Return 0)" by blast
  with sin_ssr_post [OF r] Ssr show ?thesis by simp
next
  case Ssr_frep
  from sin_ssr_frep_total [OF len, of sinf] obtain m' where r: "sin_ssr_frep sinf n m = Some (m', Return 0)" by blast
  with sin_ssr_frep_post [OF r] Ssr_frep show ?thesis by simp
next
  case Omp
  from sin_omp_total [OF len, of sinf] obtain m' where r: "sin_omp sinf n m = Some (m', Return 0)" by blast
  with sin_omp_post [OF r] Omp show ?thesis by simp
next
  case Parallel
  have "\<exists>m'. run_cores (sin_parallel sinf n core_num) [0 ..< unat core_num] m = Some m'
      \<and> writes_only {..< unat n} sinf m m'"
  proof (rule group_run [OF _ _ len cn])
    fix ci and t t' :: "'f machine" and r
    assume "sin_parallel sinf n core_num ci t = Some (t', r)"
    from sin_parallel_post [OF this]
    show "writes_only (set (map unat (core_indices n core_num ci))) sinf t t'" by simp
  next
    fix ci and t :: "'f machine"
    assume "ci < core_num" "unat n \<le> length (arr_mem t)" "unat n \<le> length (result_mem t)"
    then show "\<exists>m'. sin_parallel sinf n core_num ci t = Some (m', Return 0)"
      by (intro sin_parallel_total)
  qed
  with Parallel show ?thesis by simp
next
  case Ssr_parallel
  have "\<exists>m'. run_cores (sin_ssr_parallel sinf n core_num) [0 ..< unat core_num] m = Some m'
      \<and> writes_only {..< unat n} sinf m m'"
  proof (rule group_run [OF _ _ len cn])
    fix ci and t t' :: "'f machine" and r
    assume "sin_ssr_parallel sinf n core_num ci t = Some (t', r)"
    from sin_ssr_parallel_post [OF this]
    show "writes_only (set (map unat (core_indices n core_num ci))) sinf t t'" by simp
  next
    fix ci and t :: "'f machine"
    assume "ci < core_num" "unat n \<le> length (arr_mem t)" "unat n \<le> length (result_mem t)"
    then show "\<exists>m'. sin_ssr_parallel sinf n core_num ci t = Some (m', Return 0)"
      by (intro sin_ssr_parallel_total)
  qed
  with Ssr_parallel show ?thesis by simp
next
  case Ssr_omp
  have "\<exists>m'. run_cores (sin_ssr_omp sinf n core_num) [0 ..< unat core_num] m = Some m'
      \<and> writes_only {..< unat n} sinf m m'"
  proof (rule group_run [OF _ _ len cn])
    fix ci and t t' :: "'f machine" and r
    assume "sin_ssr_omp sinf n core_num ci t = Some (t', r)"
    from sin_ssr_omp_post [OF this]
    show "writes_only (set (map unat (core_indices n core_num ci))) sinf t t'" by simp
  next
    fix ci and t :: "'f machine"
    assume "ci < core_num" "unat n \<le> length (arr_mem t)" "unat n \<le> length (result_mem t)"
    then show "\<exists>m'. sin_ssr_omp sinf n core_num ci t = Some (m', Return 0)"
      using fit by (intro sin_ssr_omp_total)
  qed
  with Ssr_omp show ?thesis by simp
qed


section \<open>Evaluation on concrete inputs\<close>

lemma for_loop_step:
  "i < n \<Longrightarrow> for_loop i n body s = (case body i s of None \<Rightarrow> None | Some s' \<Rightarrow> for_loop (i + 1) n body s')"
  by simp

lemma for_loop_done: "\<not> i < n \<Longrightarrow> for_loop i n body s = Some s"
  by simp

lemma sigmoid_ssr_elem_finite:
  "rnd 1 = Fin 1 \<Longrightarrow> exp_d (fneg x) = Fin e \<Longrightarrow> e \<noteq> 0 \<Longrightarrow>
   sigmoid_ssr_elem rnd exp_d x = sigmoid_elem rnd exp_d x"
  by (simp add: sigmoid_ssr_elem_def sigmoid_elem_def Let_def)

lemma fdiv_self_special:
  "e = Fin 0 \<or> e = PInf \<or> e = NInf \<or> e = NaN \<Longrightarrow> fdiv rnd e e = NaN"
  by auto

lemma sigmoid_ssr_elem_special:
  assumes "\<not> (\<exists>r. exp_d (fneg x) = Fin r \<and> r \<noteq> 0)"
  shows "sigmoid_ssr_elem rnd exp_d x = NaN"
proof -
  from assms have "exp_d (fneg x) = Fin 0 \<or> exp_d (fneg x) = PInf \<or> exp_d (fneg x) = NInf \<or> exp_d (fneg x) = NaN"
    by (cases "exp_d (fneg x)") auto
  then have "fdiv rnd (exp_d (fneg x)) (exp_d (fneg x)) = NaN" by (rule fdiv_self_special)
  then show ?thesis by (simp add: sigmoid_ssr_elem_def Let_def)
qed

lemma sigmoid_elem_saturated:
  "rnd 1 = Fin 1 \<Longrightarrow> exp_d (fneg x) = Fin 0 \<Longrightarrow> sigmoid_elem rnd exp_d x = Fin 1"
  "exp_d (fneg x) = PInf \<Longrightarrow> sigmoid_elem rnd exp_d x = Fin 0"
  by (simp_all add: sigmoid_elem_def)

lemma within_tolerance_refl: "0 \<le> tol \<Longrightarrow> within_tolerance tol (Fin x) (Fin x)"
  by (simp add: within_tolerance_def)

lemma lookup_table_at_half:
  "output_of (sin_baseline_lookup_table Fin Fin 1 [Fin 0, Fin 1, Fin 0, Fin (- 1)] 4
        (machine_of (Fin 0) [Fin (1 / 2)] [Fin 0])) = Some [Fin 1]"
  by (simp add: sin_baseline_lookup_table_def output_of_def machine_of_def for_loop_step for_loop_done
      load_arr_def store_result_def lookup_index_def lookup_factor_def load_table_def
      size_to_double_def M_PI_def truncate_real_def Let_def del: for_loop.simps)

lemma sin_baseline_at_half:
  "output_of (sin_baseline sinf_exact 1 (machine_of (Fin 0) [Fin (1 / 2)] [Fin 0])) = Some [Fin (sin (1 / 2))]"
  by (simp add: sin_baseline_def output_of_def machine_of_def for_loop_step for_loop_done
      load_arr_def store_result_def del: for_loop.simps)

lemma one_not_near_sin_half: "\<not> within_tolerance sine_tolerance (Fin 1) (Fin (sin (1 / 2)))"
proof -
  have "sin (1 / 2 :: real) \<le> 1 / 2" by (rule sin_x_le_x) simp
  then show ?thesis by (simp add: within_tolerance_def sine_tolerance_def)
qed

lemma replicate_two: "replicate 2 x = [x, x]"
  by (simp add: numeral_2_eq_2)

section \<open>The claims about the kernels\<close>

text \<open>
  C1, as the code has it. The claim as stated fails for the lookup-table kernel, which
  returns a table entry and not a value near the sine (see the counterexample below).
  For the strategies that call the library routine once per element it holds with
  equality: on buffers that hold \<open>n\<close> elements (\<open>n\<close> floats fitting the 32-bit address
  space) and a non-empty core group, each of \<^verbatim>\<open>sin_ssr\<close>, \<^verbatim>\<open>sin_ssr_frep\<close>, \<^verbatim>\<open>sin_omp\<close>, and
  \<^verbatim>\<open>sin_parallel\<close>, \<^verbatim>\<open>sin_ssr_parallel\<close>, \<^verbatim>\<open>sin_ssr_omp\<close> run on every core of the group,
  returns and leaves the output buffer that \<^verbatim>\<open>sin_baseline\<close> leaves, \<open>sinf (input[i])\<close> at
  every index \<open>i < n\<close>, hence within every tolerance where that value is finite.
  \<^verbatim>\<open>sigmoid_ssr\<close> agrees with \<^verbatim>\<open>sigmoid_baseline\<close> at every index where \<open>exp (- input[i])\<close>
  is finite and not zero.
\<close>

theorem strategies_equal_baseline:
  fixes m :: "fval machine"
  assumes "unat n \<le> length (arr_mem m)" and "unat n \<le> length (result_mem m)"
    and "0 < core_num" and "4 * unat n < 2 ^ 32"
  shows "(\<exists>m' mb. run_sine_strategy sinf S n core_num m = Some m'
            \<and> sin_baseline sinf n m = Some (mb, Return 0)
            \<and> result_mem m' = result_mem mb
            \<and> (\<forall>i < unat n. result_mem mb ! i = sinf (arr_mem m ! i)
                 \<and> (\<forall>tol x. 0 \<le> tol \<and> result_mem mb ! i = Fin x \<longrightarrow>
                       within_tolerance tol (result_mem m' ! i) (result_mem mb ! i))))
     \<and> (rnd 1 = Fin 1 \<longrightarrow>
          (\<exists>ms mb. sigmoid_ssr rnd exp_d n m = Some (ms, Return 0)
            \<and> sigmoid_baseline rnd exp_d n m = Some (mb, Return 0)
            \<and> (\<forall>i < unat n. (\<exists>e. exp_d (fneg (arr_mem m ! i)) = Fin e \<and> e \<noteq> 0) \<longrightarrow>
                 result_mem ms ! i = result_mem mb ! i
                 \<and> (\<forall>tol x. 0 \<le> tol \<and> result_mem mb ! i = Fin x \<longrightarrow>
                       within_tolerance tol (result_mem ms ! i) (result_mem mb ! i)))))"
proof (intro conjI impI)
  from run_sine_strategy_post [OF assms, of sinf S]
  obtain m' where m': "run_sine_strategy sinf S n core_num m = Some m'"
    and w: "writes_only {..< unat n} sinf m m'" by blast
  from sin_baseline_total [OF assms(1,2), of sinf]
  obtain mb where mb: "sin_baseline sinf n m = Some (mb, Return 0)" by blast
  from sin_baseline_post [OF mb] have wb: "writes_only {..< unat n} sinf m mb" by simp
  have eq: "result_mem m' = result_mem mb" by (rule writes_only_unique [OF w wb])
  have "\<forall>i < unat n. result_mem mb ! i = sinf (arr_mem m ! i)
         \<and> (\<forall>tol x. 0 \<le> tol \<and> result_mem mb ! i = Fin x \<longrightarrow>
               within_tolerance tol (result_mem m' ! i) (result_mem mb ! i))"
    using wb assms(2) by (auto simp: writes_only_def eq within_tolerance_refl)
  with m' mb eq
  show "\<exists>m' mb. run_sine_strategy sinf S n core_num m = Some m'
            \<and> sin_baseline sinf n m = Some (mb, Return 0)
            \<and> result_mem m' = result_mem mb
            \<and> (\<forall>i < unat n. result_mem mb ! i = sinf (arr_mem m ! i)
                 \<and> (\<forall>tol x. 0 \<le> tol \<and> result_mem mb ! i = Fin x \<longrightarrow>
                       within_tolerance tol (result_mem m' ! i) (result_mem mb ! i)))"
    by blast
next
  assume one: "rnd 1 = Fin 1"
  from sigmoid_ssr_total [OF assms(1,2), of rnd exp_d]
  obtain ms where ms: "sigmoid_ssr rnd exp_d n m = Some (ms, Return 0)" by blast
  from sigmoid_baseline_total [OF assms(1,2), of rnd exp_d]
  obtain mb where mb: "sigmoid_baseline rnd exp_d n m = Some (mb, Return 0)" by blast
  from sigmoid_ssr_post [OF ms] have ws: "writes_only {..< unat n} (sigmoid_ssr_elem rnd exp_d) m ms" by simp
  from sigmoid_baseline_post [OF mb] have wb: "writes_only {..< unat n} (sigmoid_elem rnd exp_d) m mb" by simp
  have "\<forall>i < unat n. (\<exists>e. exp_d (fneg (arr_mem m ! i)) = Fin e \<and> e \<noteq> 0) \<longrightarrow>
                 result_mem ms ! i = result_mem mb ! i
                 \<and> (\<forall>tol x. 0 \<le> tol \<and> result_mem mb ! i = Fin x \<longrightarrow>
                       within_tolerance tol (result_mem ms ! i) (result_mem mb ! i))"
  proof (intro allI impI)
    fix i assume i: "i < unat n" and "\<exists>e. exp_d (fneg (arr_mem m ! i)) = Fin e \<and> e \<noteq> 0"
    then obtain e where e: "exp_d (fneg (arr_mem m ! i)) = Fin e" "e \<noteq> 0" by blast
    from i assms(2) have il: "i < length (result_mem m)" by simp
    from ws wb i il have "result_mem ms ! i = sigmoid_ssr_elem rnd exp_d (arr_mem m ! i)"
      "result_mem mb ! i = sigmoid_elem rnd exp_d (arr_mem m ! i)"
      by (simp_all add: writes_only_def)
    with sigmoid_ssr_elem_finite [of rnd exp_d "arr_mem m ! i" e, OF one e] have eq: "result_mem ms ! i = result_mem mb ! i" by simp
    then show "result_mem ms ! i = result_mem mb ! i
                 \<and> (\<forall>tol x. 0 \<le> tol \<and> result_mem mb ! i = Fin x \<longrightarrow>
                       within_tolerance tol (result_mem ms ! i) (result_mem mb ! i))"
      by (auto simp: within_tolerance_refl)
  qed
  with ms mb
  show "\<exists>ms mb. sigmoid_ssr rnd exp_d n m = Some (ms, Return 0)
            \<and> sigmoid_baseline rnd exp_d n m = Some (mb, Return 0)
            \<and> (\<forall>i < unat n. (\<exists>e. exp_d (fneg (arr_mem m ! i)) = Fin e \<and> e \<noteq> 0) \<longrightarrow>
                 result_mem ms ! i = result_mem mb ! i
                 \<and> (\<forall>tol x. 0 \<le> tol \<and> result_mem mb ! i = Fin x \<longrightarrow>
                       within_tolerance tol (result_mem ms ! i) (result_mem mb ! i)))"
    by blast
qed

theorem strategies_equal_baseline_witness:
  "unat (2 :: size_t) \<le> length (arr_mem (machine_of (Fin 0) [Fin 0, Fin 1] [Fin 5, Fin 5]))
   \<and> unat (2 :: size_t) \<le> length (result_mem (machine_of (Fin 0) [Fin 0, Fin 1] [Fin 5, Fin 5]))
   \<and> (0 :: size_t) < 2 \<and> 4 * unat (2 :: size_t) < 2 ^ 32
   \<and> map_option result_mem (run_sine_strategy sinf_exact Parallel 2 2
          (machine_of (Fin 0) [Fin 0, Fin 1] [Fin 5, Fin 5]))
       = output_of (sin_baseline sinf_exact 2 (machine_of (Fin 0) [Fin 0, Fin 1] [Fin 5, Fin 5]))
   \<and> output_of (sin_baseline sinf_exact 2 (machine_of (Fin 0) [Fin 0, Fin 1] [Fin 5, Fin 5]))
       = Some [Fin 0, Fin (sin 1)]"
proof -
  let ?M = "machine_of (Fin 0) [Fin 0, Fin 1] [Fin 5, Fin 5]"
  have a: "unat (2 :: size_t) \<le> length (arr_mem ?M)" by (simp add: machine_of_def)
  have b: "unat (2 :: size_t) \<le> length (result_mem ?M)" by (simp add: machine_of_def)
  have c: "(0 :: size_t) < 2" by simp
  have d: "4 * unat (2 :: size_t) < 2 ^ 32" by simp
  from strategies_equal_baseline [OF a b c d, of sinf_exact Parallel Fin exp_exact]
  obtain m' mb where "run_sine_strategy sinf_exact Parallel 2 2 ?M = Some m'"
    "sin_baseline sinf_exact 2 ?M = Some (mb, Return 0)" "result_mem m' = result_mem mb"
    by blast
  then have e: "map_option result_mem (run_sine_strategy sinf_exact Parallel 2 2 ?M)
       = output_of (sin_baseline sinf_exact 2 ?M)"
    by (simp add: output_of_def)
  have f: "output_of (sin_baseline sinf_exact 2 ?M) = Some [Fin 0, Fin (sin 1)]"
    by (simp add: sin_baseline_def output_of_def machine_of_def for_loop_step for_loop_done
        load_arr_def store_result_def del: for_loop.simps)
  show ?thesis by (intro conjI a b c d e f)
qed

text \<open>
  C1, counterexample: a table of four samples of the sine over one period, the input
  \<open>0.5\<close>. The lookup-table kernel stores \<open>1\<close>; the baseline stores \<open>sin 0.5\<close>, which is at
  most \<open>0.5\<close>.
\<close>

theorem lookup_table_outside_tolerance:
  "output_of (sin_baseline_lookup_table Fin Fin 1 [Fin 0, Fin 1, Fin 0, Fin (- 1)] 4
        (machine_of (Fin 0) [Fin (1 / 2)] [Fin 0])) = Some [Fin 1]
   \<and> output_of (sin_baseline sinf_exact 1 (machine_of (Fin 0) [Fin (1 / 2)] [Fin 0]))
        = Some [Fin (sin (1 / 2))]
   \<and> \<not> within_tolerance sine_tolerance (Fin 1) (Fin (sin (1 / 2)))"
  by (intro conjI lookup_table_at_half sin_baseline_at_half one_not_near_sin_half)

text \<open>
  C4. For every kernel and every call of it that returns: the value at an assigned output
  position \<open>i\<close> is a function of the input element at \<open>i\<close> alone (and of the table, which
  is an argument of the call), so two runs whose inputs agree at \<open>i\<close> leave identical
  values at output position \<open>i\<close>; every output position outside the assigned range holds
  what it held before the call; the input buffer is unchanged; and the assigned range
  lies inside the output buffer.
\<close>

theorem elementwise_within_assigned_range:
  assumes "run_kernel lib k m1 = Some (m1', r1)" and "run_kernel lib k m2 = Some (m2', r2)"
  shows "(\<forall>i \<in> assigned k. arr_mem m1 ! i = arr_mem m2 ! i \<longrightarrow> result_mem m1' ! i = result_mem m2' ! i)
     \<and> (\<forall>i \<in> assigned k. result_mem m1' ! i = elem lib k (arr_mem m1 ! i))
     \<and> (\<forall>i < length (result_mem m1). i \<notin> assigned k \<longrightarrow> result_mem m1' ! i = result_mem m1 ! i)
     \<and> length (result_mem m1') = length (result_mem m1)
     \<and> arr_mem m1' = arr_mem m1
     \<and> assigned k \<subseteq> {..< length (result_mem m1)}"
proof -
  from run_kernel_post [OF assms(1)]
  have w1: "writes_only (assigned k) (elem lib k) m1 m1'" and s1: "assigned k \<subseteq> {..< length (result_mem m1)}"
    by simp_all
  from run_kernel_post [OF assms(2)]
  have w2: "writes_only (assigned k) (elem lib k) m2 m2'" and s2: "assigned k \<subseteq> {..< length (result_mem m2)}"
    by simp_all
  have v1: "\<forall>i \<in> assigned k. result_mem m1' ! i = elem lib k (arr_mem m1 ! i)"
    using w1 s1 by (auto simp: writes_only_def)
  have v2: "\<forall>i \<in> assigned k. result_mem m2' ! i = elem lib k (arr_mem m2 ! i)"
    using w2 s2 by (auto simp: writes_only_def)
  have "\<forall>i \<in> assigned k. arr_mem m1 ! i = arr_mem m2 ! i \<longrightarrow> result_mem m1' ! i = result_mem m2' ! i"
    using v1 v2 by simp
  moreover have "\<forall>i < length (result_mem m1). i \<notin> assigned k \<longrightarrow> result_mem m1' ! i = result_mem m1 ! i"
    using w1 by (simp add: writes_only_def)
  moreover have "length (result_mem m1') = length (result_mem m1)" "arr_mem m1' = arr_mem m1"
    using w1 by (simp_all add: writes_only_def)
  ultimately show ?thesis using v1 s1 by blast
qed

theorem elementwise_within_assigned_range_witness:
  "run_kernel exact_lib (Sin_parallel 4 2 1)
       (machine_of (Fin 0) [Fin 0, Fin 0, Fin 1, Fin 2] [Fin 9, Fin 9, Fin 9, Fin 9]) \<noteq> None
   \<and> run_kernel exact_lib (Sin_parallel 4 2 1)
       (machine_of (Fin 0) [Fin 7, Fin 7, Fin 1, Fin 5] [Fin 8, Fin 8, Fin 8, Fin 8]) \<noteq> None
   \<and> assigned (Sin_parallel 4 2 1) = {2, 3}
   \<and> map_option (\<lambda>r. result_mem (fst r) ! 2) (run_kernel exact_lib (Sin_parallel 4 2 1)
         (machine_of (Fin 0) [Fin 0, Fin 0, Fin 1, Fin 2] [Fin 9, Fin 9, Fin 9, Fin 9]))
     = map_option (\<lambda>r. result_mem (fst r) ! 2) (run_kernel exact_lib (Sin_parallel 4 2 1)
         (machine_of (Fin 0) [Fin 7, Fin 7, Fin 1, Fin 5] [Fin 8, Fin 8, Fin 8, Fin 8]))
   \<and> map_option (\<lambda>r. result_mem (fst r) ! 0) (run_kernel exact_lib (Sin_parallel 4 2 1)
         (machine_of (Fin 0) [Fin 0, Fin 0, Fin 1, Fin 2] [Fin 9, Fin 9, Fin 9, Fin 9]))
     = Some (Fin 9)"
proof -
  let ?K = "Sin_parallel 4 2 1"
  let ?M1 = "machine_of (Fin 0) [Fin 0, Fin 0, Fin 1, Fin 2] [Fin 9, Fin 9, Fin 9, Fin 9]"
  let ?M2 = "machine_of (Fin 0) [Fin 7, Fin 7, Fin 1, Fin 5] [Fin 8, Fin 8, Fin 8, Fin 8]"
  have ci: "(1 :: size_t) < 2" by simp
  have "\<exists>m'. sin_parallel (lib_sinf exact_lib) 4 2 1 ?M1 = Some (m', Return 0)"
    by (rule sin_parallel_total [OF _ _ ci]) (simp_all add: machine_of_def)
  then obtain m1' where r1: "run_kernel exact_lib ?K ?M1 = Some (m1', Return 0)" by auto
  have "\<exists>m'. sin_parallel (lib_sinf exact_lib) 4 2 1 ?M2 = Some (m', Return 0)"
    by (rule sin_parallel_total [OF _ _ ci]) (simp_all add: machine_of_def)
  then obtain m2' where r2: "run_kernel exact_lib ?K ?M2 = Some (m2', Return 0)" by auto
  have as: "assigned ?K = {2, 3}"
  proof -
    have "map unat (core_indices 4 2 1) = [2, 3]" by code_simp
    then show ?thesis by simp
  qed
  note t = elementwise_within_assigned_range [OF r1 r2]
  from t have "\<forall>i \<in> assigned ?K. arr_mem ?M1 ! i = arr_mem ?M2 ! i \<longrightarrow> result_mem m1' ! i = result_mem m2' ! i"
    by (rule conjunct1)
  then have eq: "result_mem m1' ! 2 = result_mem m2' ! 2"
    by (simp add: as machine_of_def del: assigned.simps)
  from t have "\<forall>i < length (result_mem ?M1). i \<notin> assigned ?K \<longrightarrow> result_mem m1' ! i = result_mem ?M1 ! i"
    by blast
  then have fr: "result_mem m1' ! 0 = Fin 9"
    by (simp add: as machine_of_def del: assigned.simps)
  show ?thesis using r1 r2 as eq fr by (simp del: assigned.simps run_kernel.simps)
qed

text \<open>
  C8. In \<^verbatim>\<open>sigmoid_ssr\<close> the constant 1 is computed as \<open>exp (- x) / exp (- x)\<close>. On buffers of
  \<open>n\<close> elements both kernels return, and at every index: the streaming kernel stores
  \<open>(e / e) / (e / e + e)\<close> and the baseline \<open>1 / (1 + e)\<close> for \<open>e = exp (- input[i])\<close>; the two
  are the same value when \<open>e\<close> is finite and not zero; they compare equal only then; and
  when \<open>e\<close> is \<open>0\<close> or \<open>+infinity\<close> the streaming kernel stores NaN where the baseline stores
  the saturated value \<open>1\<close> or \<open>0\<close>. (The hypothesis says that rounding leaves the
  representable number 1 alone.)
\<close>

theorem sigmoid_ssr_nan_when_exp_saturates:
  fixes m :: "fval machine"
  assumes "rnd 1 = Fin 1" and "unat n \<le> length (arr_mem m)" and "unat n \<le> length (result_mem m)"
  shows "\<exists>ms mb. sigmoid_ssr rnd exp_d n m = Some (ms, Return 0)
     \<and> sigmoid_baseline rnd exp_d n m = Some (mb, Return 0)
     \<and> (\<forall>i < unat n.
          result_mem ms ! i =
            fdiv rnd (fdiv rnd (exp_d (fneg (arr_mem m ! i))) (exp_d (fneg (arr_mem m ! i))))
              (fadd rnd (fdiv rnd (exp_d (fneg (arr_mem m ! i))) (exp_d (fneg (arr_mem m ! i))))
                 (exp_d (fneg (arr_mem m ! i))))
        \<and> result_mem mb ! i = fdiv rnd (Fin 1) (fadd rnd (Fin 1) (exp_d (fneg (arr_mem m ! i))))
        \<and> ((\<exists>e. exp_d (fneg (arr_mem m ! i)) = Fin e \<and> e \<noteq> 0) \<longrightarrow> result_mem ms ! i = result_mem mb ! i)
        \<and> (feq (result_mem ms ! i) (result_mem mb ! i) \<longrightarrow> (\<exists>e. exp_d (fneg (arr_mem m ! i)) = Fin e \<and> e \<noteq> 0))
        \<and> (exp_d (fneg (arr_mem m ! i)) = Fin 0 \<longrightarrow> result_mem ms ! i = NaN \<and> result_mem mb ! i = Fin 1)
        \<and> (exp_d (fneg (arr_mem m ! i)) = PInf \<longrightarrow> result_mem ms ! i = NaN \<and> result_mem mb ! i = Fin 0))"
proof -
  from sigmoid_ssr_total [OF assms(2,3), of rnd exp_d]
  obtain ms where ms: "sigmoid_ssr rnd exp_d n m = Some (ms, Return 0)" by blast
  from sigmoid_baseline_total [OF assms(2,3), of rnd exp_d]
  obtain mb where mb: "sigmoid_baseline rnd exp_d n m = Some (mb, Return 0)" by blast
  from sigmoid_ssr_post [OF ms] have ws: "writes_only {..< unat n} (sigmoid_ssr_elem rnd exp_d) m ms" by simp
  from sigmoid_baseline_post [OF mb] have wb: "writes_only {..< unat n} (sigmoid_elem rnd exp_d) m mb" by simp
  have "\<forall>i < unat n.
          result_mem ms ! i =
            fdiv rnd (fdiv rnd (exp_d (fneg (arr_mem m ! i))) (exp_d (fneg (arr_mem m ! i))))
              (fadd rnd (fdiv rnd (exp_d (fneg (arr_mem m ! i))) (exp_d (fneg (arr_mem m ! i))))
                 (exp_d (fneg (arr_mem m ! i))))
        \<and> result_mem mb ! i = fdiv rnd (Fin 1) (fadd rnd (Fin 1) (exp_d (fneg (arr_mem m ! i))))
        \<and> ((\<exists>e. exp_d (fneg (arr_mem m ! i)) = Fin e \<and> e \<noteq> 0) \<longrightarrow> result_mem ms ! i = result_mem mb ! i)
        \<and> (feq (result_mem ms ! i) (result_mem mb ! i) \<longrightarrow> (\<exists>e. exp_d (fneg (arr_mem m ! i)) = Fin e \<and> e \<noteq> 0))
        \<and> (exp_d (fneg (arr_mem m ! i)) = Fin 0 \<longrightarrow> result_mem ms ! i = NaN \<and> result_mem mb ! i = Fin 1)
        \<and> (exp_d (fneg (arr_mem m ! i)) = PInf \<longrightarrow> result_mem ms ! i = NaN \<and> result_mem mb ! i = Fin 0)"
  proof (intro allI impI)
    fix i assume i: "i < unat n"
    let ?x = "arr_mem m ! i"
    let ?e = "exp_d (fneg ?x)"
    from i assms(3) have il: "i < length (result_mem m)" by simp
    from ws wb i il have s: "result_mem ms ! i = sigmoid_ssr_elem rnd exp_d ?x"
      and b: "result_mem mb ! i = sigmoid_elem rnd exp_d ?x"
      by (simp_all add: writes_only_def)
    have c1: "result_mem ms ! i = fdiv rnd (fdiv rnd ?e ?e) (fadd rnd (fdiv rnd ?e ?e) ?e)"
      by (simp add: s sigmoid_ssr_elem_def Let_def)
    have c2: "result_mem mb ! i = fdiv rnd (Fin 1) (fadd rnd (Fin 1) ?e)"
      by (simp add: b sigmoid_elem_def)
    have c3: "(\<exists>e. ?e = Fin e \<and> e \<noteq> 0) \<longrightarrow> result_mem ms ! i = result_mem mb ! i"
      using sigmoid_ssr_elem_finite [of rnd exp_d ?x, OF assms(1)] s b by auto
    have c4: "feq (result_mem ms ! i) (result_mem mb ! i) \<longrightarrow> (\<exists>e. ?e = Fin e \<and> e \<noteq> 0)"
      using sigmoid_ssr_elem_special [of exp_d ?x rnd] s by (auto simp: feq_def)
    have c5: "?e = Fin 0 \<longrightarrow> result_mem ms ! i = NaN \<and> result_mem mb ! i = Fin 1"
      using sigmoid_ssr_elem_special [of exp_d ?x rnd] sigmoid_elem_saturated(1) [of rnd exp_d ?x, OF assms(1)] s b
      by auto
    have c6: "?e = PInf \<longrightarrow> result_mem ms ! i = NaN \<and> result_mem mb ! i = Fin 0"
      using sigmoid_ssr_elem_special [of exp_d ?x rnd] sigmoid_elem_saturated(2) [of exp_d ?x rnd] s b
      by auto
    from c1 c2 c3 c4 c5 c6
    show "result_mem ms ! i = fdiv rnd (fdiv rnd ?e ?e) (fadd rnd (fdiv rnd ?e ?e) ?e)
        \<and> result_mem mb ! i = fdiv rnd (Fin 1) (fadd rnd (Fin 1) ?e)
        \<and> ((\<exists>e. ?e = Fin e \<and> e \<noteq> 0) \<longrightarrow> result_mem ms ! i = result_mem mb ! i)
        \<and> (feq (result_mem ms ! i) (result_mem mb ! i) \<longrightarrow> (\<exists>e. ?e = Fin e \<and> e \<noteq> 0))
        \<and> (?e = Fin 0 \<longrightarrow> result_mem ms ! i = NaN \<and> result_mem mb ! i = Fin 1)
        \<and> (?e = PInf \<longrightarrow> result_mem ms ! i = NaN \<and> result_mem mb ! i = Fin 0)"
      by blast
  qed
  with ms mb show ?thesis by blast
qed


theorem sigmoid_ssr_nan_when_exp_saturates_witness:
  "Fin 1 = Fin 1
   \<and> unat (1 :: size_t) \<le> length (arr_mem (machine_of (Fin 0) [Fin 0] [Fin 5]))
   \<and> unat (1 :: size_t) \<le> length (result_mem (machine_of (Fin 0) [Fin 0] [Fin 5]))
   \<and> map_option (\<lambda>r. result_mem (fst r) ! 0) (sigmoid_ssr Fin exp_exact 1 (machine_of (Fin 0) [Fin 0] [Fin 5]))
       = Some (Fin (1 / 2))
   \<and> map_option (\<lambda>r. result_mem (fst r) ! 0) (sigmoid_baseline Fin exp_exact 1 (machine_of (Fin 0) [Fin 0] [Fin 5]))
       = Some (Fin (1 / 2))
   \<and> map_option (\<lambda>r. result_mem (fst r) ! 0) (sigmoid_ssr Fin (\<lambda>x. Fin 0) 1 (machine_of (Fin 0) [Fin 1000] [Fin 5]))
       = Some NaN
   \<and> map_option (\<lambda>r. result_mem (fst r) ! 0) (sigmoid_baseline Fin (\<lambda>x. Fin 0) 1 (machine_of (Fin 0) [Fin 1000] [Fin 5]))
       = Some (Fin 1)"
proof -
  let ?M = "machine_of (Fin 0) [Fin 0] [Fin 5]"
  let ?N = "machine_of (Fin 0) [Fin 1000] [Fin 5]"
  have a: "Fin 1 = Fin 1" by simp
  have b: "unat (1 :: size_t) \<le> length (arr_mem ?M)" by (simp add: machine_of_def)
  have c: "unat (1 :: size_t) \<le> length (result_mem ?M)" by (simp add: machine_of_def)
  have b': "unat (1 :: size_t) \<le> length (arr_mem ?N)" by (simp add: machine_of_def)
  have c': "unat (1 :: size_t) \<le> length (result_mem ?N)" by (simp add: machine_of_def)
  from sigmoid_ssr_nan_when_exp_saturates [of Fin, OF a b c, of exp_exact]
  obtain ms mb where ms: "sigmoid_ssr Fin exp_exact 1 ?M = Some (ms, Return 0)"
    and mb: "sigmoid_baseline Fin exp_exact 1 ?M = Some (mb, Return 0)"
    and v: "result_mem ms ! 0 = fdiv Fin (fdiv Fin (exp_exact (fneg (arr_mem ?M ! 0))) (exp_exact (fneg (arr_mem ?M ! 0))))
              (fadd Fin (fdiv Fin (exp_exact (fneg (arr_mem ?M ! 0))) (exp_exact (fneg (arr_mem ?M ! 0))))
                 (exp_exact (fneg (arr_mem ?M ! 0))))"
      "result_mem mb ! 0 = fdiv Fin (Fin 1) (fadd Fin (Fin 1) (exp_exact (fneg (arr_mem ?M ! 0))))"
    by auto
  have d: "map_option (\<lambda>r. result_mem (fst r) ! 0) (sigmoid_ssr Fin exp_exact 1 ?M) = Some (Fin (1 / 2))"
    using ms v(1) by (simp add: machine_of_def)
  have e: "map_option (\<lambda>r. result_mem (fst r) ! 0) (sigmoid_baseline Fin exp_exact 1 ?M) = Some (Fin (1 / 2))"
    using mb v(2) by (simp add: machine_of_def)
  from sigmoid_ssr_nan_when_exp_saturates [of Fin, OF a b' c', of "\<lambda>x. Fin 0"]
  obtain ns nb where ns: "sigmoid_ssr Fin (\<lambda>x. Fin 0) 1 ?N = Some (ns, Return 0)"
    and nb: "sigmoid_baseline Fin (\<lambda>x. Fin 0) 1 ?N = Some (nb, Return 0)"
    and w: "result_mem ns ! 0 = NaN" "result_mem nb ! 0 = Fin 1"
    by auto
  have f: "map_option (\<lambda>r. result_mem (fst r) ! 0) (sigmoid_ssr Fin (\<lambda>x. Fin 0) 1 ?N) = Some NaN"
    using ns w(1) by simp
  have g: "map_option (\<lambda>r. result_mem (fst r) ! 0) (sigmoid_baseline Fin (\<lambda>x. Fin 0) 1 ?N) = Some (Fin 1)"
    using nb w(2) by simp
  show ?thesis by (intro conjI a b c d e f g)
qed

text \<open>
  C7. The streaming lookup-table kernel is dead code: for every input, every table and
  every machine the call returns 0, the output buffer and the input buffer are what they
  were, no element has gone through either data mover, and the result is the same
  whatever table is passed, so no table entry is read.
\<close>

theorem sin_ssr_lookup_table_does_nothing:
  "\<exists>m'. sin_ssr_lookup_table rnd_d rnd_s n lookup_table lookup_table_size m = Some (m', Return 0)
     \<and> result_mem m' = result_mem m \<and> arr_mem m' = arr_mem m
     \<and> dm_pos (dm0 m') = 0 \<and> dm_pos (dm1 m') = 0
     \<and> sin_ssr_lookup_table rnd_d rnd_s n other_table other_size m
         = sin_ssr_lookup_table rnd_d rnd_s n lookup_table lookup_table_size m"
  by (simp add: sin_ssr_lookup_table_def Let_def snrt_defs)

text \<open>
  C9, at a failing input. \<^verbatim>\<open>sin_baseline_lookup_table\<close> is declared \<^verbatim>\<open>int\<close> and has no
  \<^verbatim>\<open>return\<close> statement: on a one-element array and a one-entry table the call completes
  and hands back no value, where \<^verbatim>\<open>sin_baseline\<close> on the same array returns 0
  (\<open>run_kernel_status\<close> above: so does every other kernel, on every input).
\<close>

theorem sin_baseline_lookup_table_returns_no_value:
  "status_of (sin_baseline_lookup_table Fin Fin 1 [Fin 0] 1 (machine_of (Fin 0) [Fin 0] [Fin 1]))
     = Some NoReturnValue
   \<and> status_of (sin_baseline sinf_exact 1 (machine_of (Fin 0) [Fin 0] [Fin 1])) = Some (Return 0)"
  by (simp add: sin_baseline_lookup_table_def sin_baseline_def status_of_def machine_of_def
      for_loop_step for_loop_done
      load_arr_def store_result_def lookup_index_def lookup_factor_def load_table_def
      size_to_double_def M_PI_def truncate_real_def Let_def del: for_loop.simps)

text \<open>
  C6, at a failing input. \<^verbatim>\<open>sin_ssr_omp\<close> with \<open>n = 4\<close> on core 0 of 2: the loop runs
  \<open>local_n = 2\<close> times, the reading mover is configured with 2 elements and has moved 2,
  the writing mover is configured with \<open>local_n + 1 = 3\<close> elements and has moved 2.
  (\<open>sin_ssr_post\<close>, \<open>sigmoid_ssr_post\<close> and \<open>sin_ssr_parallel_post\<close> above show that in the
  other streaming kernels both configured lengths equal the number of iterations.)
\<close>

theorem sin_ssr_omp_write_stream_longer_than_loop:
  "\<exists>m'. sin_ssr_omp sinf_exact 4 2 0
           (machine_of (Fin 0) [Fin 0, Fin 1, Fin 2, Fin 3] [Fin 0, Fin 0, Fin 0, Fin 0]) = Some (m', Return 0)
     \<and> local_n_of 4 2 = 2
     \<and> dm_bound (dm0 m') = 2 \<and> dm_pos (dm0 m') = 2
     \<and> dm_bound (dm1 m') = 3 \<and> dm_pos (dm1 m') = 2"
proof -
  let ?M = "machine_of (Fin 0) [Fin 0, Fin 1, Fin 2, Fin 3] [Fin 0, Fin 0, Fin 0, Fin 0]"
  have "\<exists>m'. sin_ssr_omp sinf_exact 4 2 0 ?M = Some (m', Return 0)"
    by (rule sin_ssr_omp_total) (simp_all add: machine_of_def)
  then obtain m' where r: "sin_ssr_omp sinf_exact 4 2 0 ?M = Some (m', Return 0)" by blast
  have l: "local_n_of 4 2 = 2" by (simp add: local_n_of_def)
  from sin_ssr_omp_post [OF r] l r show ?thesis by simp
qed

text \<open>
  C10, at a failing input. On core 0 with \<open>size = 2\<close> the benchmark prints its two report
  lines; the loads of the second timed loop are from \<^verbatim>\<open>memory_x\<close>, the buffer that came
  from \<^verbatim>\<open>allocate\<close> and that the first timed loop reads too; the buffer that came from
  \<^verbatim>\<open>snrt_l1alloc\<close> is never loaded from and still holds what it held when allocated.
\<close>

theorem second_timed_loop_reads_main_memory_buffer:
  "map_option (\<lambda>(code, report, st). (code, map label report, map timed_loads report,
        origin st Memory_x, origin st Memory_l1, cells st Memory_l1))
     (bench_main Fin Fin NaN 0 2 100 200 300 400)
   = Some (0, [''copy_memory_to_memory'', ''copy_l1_to_memory''],
        [[(Memory_x, 0), (Memory_x, 1)], [(Memory_x, 0), (Memory_x, 1)]],
        Some Allocate, Some Snrt_l1alloc, [NaN, NaN])"
  by (simp add: bench_main_def bench_init_def alloc_def copy_loop_def load_cell_def store_cell_def
      fill_value_def for_loop_step for_loop_done Let_def replicate_two del: for_loop.simps)

subsection \<open>The lookup table\<close>

lemma lookup_value_Some:
  "lookup_value rnd_s f tab x \<noteq> None \<longleftrightarrow>
     (\<exists>k. float_to_int (fmul rnd_s x f) = Some k \<and> 0 \<le> k \<and> nat k < length tab)"
  by (auto simp: lookup_value_def lookup_index_def load_table_def split: Option.bind_splits)

lemma lookup_value_the:
  "float_to_int (fmul rnd_s x f) = Some k \<Longrightarrow> 0 \<le> k \<Longrightarrow> nat k < length tab \<Longrightarrow>
   the (lookup_value rnd_s f tab x) = tab ! nat k"
  by (simp add: lookup_value_def lookup_index_def load_table_def)

lemma lookup_table_total:
  assumes len: "unat n \<le> length (arr_mem m)" "unat n \<le> length (result_mem m)"
    and ok: "\<And>k. k < unat n \<Longrightarrow> lookup_value rnd_s (lookup_factor rnd_d rnd_s sz) tab (arr_mem m ! k) \<noteq> None"
  shows "\<exists>m'. sin_baseline_lookup_table rnd_d rnd_s n tab sz m = Some (m', NoReturnValue)"
proof -
  let ?f = "lookup_factor rnd_d rnd_s sz"
  let ?body = "\<lambda>j m. do { x \<leftarrow> load_arr j m; k \<leftarrow> lookup_index rnd_s x ?f;
         v \<leftarrow> load_table tab k; store_result j v m }"
  have step: "\<And>j m. ?body j m =
     (if unat j < length (arr_mem m) \<and> unat j < length (result_mem m)
         \<and> lookup_value rnd_s ?f tab (arr_mem m ! unat j) \<noteq> None
      then Some (m\<lparr>result_mem := (result_mem m)[unat j :=
              the (lookup_value rnd_s ?f tab (arr_mem m ! unat j))]\<rparr>)
      else None)"
    by (auto simp: load_arr_def store_result_def lookup_value_def split: Option.bind_splits)
  show ?thesis unfolding sin_baseline_lookup_table_def Let_def
    by (rule scalar_kernel_total [where ok = "\<lambda>x. lookup_value rnd_s ?f tab x \<noteq> None"
          and g = "\<lambda>x. the (lookup_value rnd_s ?f tab x)" and body = ?body, OF step len ok])
qed

lemma lookup_index_Some:
  "lookup_index rnd_s x f = Some k \<Longrightarrow>
     \<exists>y. fmul rnd_s x f = Fin y \<and> k = (if 0 \<le> y then \<lfloor>y\<rfloor> else \<lceil>y\<rceil>)"
  by (cases "fmul rnd_s x f") (auto simp: lookup_index_def truncate_real_def Let_def split: if_splits)

lemma lookup_value_index:
  "lookup_value rnd_s f tab x \<noteq> None \<longleftrightarrow>
     (\<exists>k. lookup_index rnd_s x f = Some k \<and> 0 \<le> k \<and> nat k < length tab)"
  by (auto simp: lookup_value_def lookup_index_def load_table_def split: Option.bind_splits)

lemma spec_index_at_half: "spec_lookup_index 4 (1 / 2) = 0"
proof -
  have "0 \<le> 1 / pi" by simp
  moreover have "1 / pi < 1" using pi_ge_two by simp
  ultimately have "\<lfloor>1 / pi\<rfloor> = 0" by (simp add: floor_eq_iff)
  then show ?thesis by (simp add: spec_lookup_index_def spec_domain_scale_def)
qed

lemma code_index_at_half:
  "float_to_int (fmul Fin (Fin (1 / 2)) (lookup_factor Fin Fin 4)) = Some 1"
  by (simp add: lookup_factor_def size_to_double_def M_PI_def truncate_real_def Let_def)

lemma code_index_negative:
  "float_to_int (fmul Fin (Fin (- 1 / 10)) (lookup_factor Fin Fin 4)) = Some 0
   \<and> \<lfloor>(- 1 / 10) * (real (unat (4 :: size_t)) / M_PI * 2)\<rfloor> = - 1"
  by (simp add: lookup_factor_def size_to_double_def M_PI_def truncate_real_def Let_def)

text \<open>
  C5, as the code has it, for a call as a whole. When the scalar lookup-table kernel
  returns, every output element \<open>i < n\<close> is \<open>table[k]\<close>, where \<open>k\<close> is what the cast
  \<open>(int)(input[i] * factor)\<close> gives: the product \<open>y\<close> of the element and the kernel's
  \<open>factor\<close>, computed in \<^verbatim>\<open>float\<close>, is finite, and \<open>k\<close> is its floor when \<open>y\<close> is not
  negative and 0 when \<open>-1 < y < 0\<close> (truncation towards zero); \<open>k\<close> is a position of the
  table. The kernel returns whenever the buffers hold \<open>n\<close> elements and the index of every
  element is a position of the table. This holds for every rounding of the two formats.
  Nothing is said here about the value of \<open>factor\<close>, which the kernel computes as
  \<^verbatim>\<open>lookup_table_size / M_PI * 2.0\<close>.
\<close>

theorem lookup_table_indexing:
  "(sin_baseline_lookup_table rnd_d rnd_s n lookup_table lookup_table_size m = Some (m', r) \<longrightarrow>
      (\<forall>i < unat n. \<exists>y k.
          fmul rnd_s (arr_mem m ! i) (lookup_factor rnd_d rnd_s lookup_table_size) = Fin y
          \<and> lookup_index rnd_s (arr_mem m ! i) (lookup_factor rnd_d rnd_s lookup_table_size) = Some k
          \<and> k = (if 0 \<le> y then \<lfloor>y\<rfloor> else 0) \<and> - 1 < y
          \<and> nat k < length lookup_table \<and> result_mem m' ! i = lookup_table ! nat k))
   \<and> (unat n \<le> length (arr_mem m) \<and> unat n \<le> length (result_mem m)
       \<and> (\<forall>i < unat n. \<exists>k.
          lookup_index rnd_s (arr_mem m ! i) (lookup_factor rnd_d rnd_s lookup_table_size) = Some k
          \<and> 0 \<le> k \<and> nat k < length lookup_table)
       \<longrightarrow> (\<exists>m'. sin_baseline_lookup_table rnd_d rnd_s n lookup_table lookup_table_size m
                  = Some (m', NoReturnValue)))"
proof (intro conjI impI allI)
  fix i
  assume run: "sin_baseline_lookup_table rnd_d rnd_s n lookup_table lookup_table_size m = Some (m', r)"
    and i: "i < unat n"
  let ?f = "lookup_factor rnd_d rnd_s lookup_table_size"
  from lookup_table_post [OF run]
  have w: "writes_only {..< unat n} (\<lambda>x. the (lookup_value rnd_s ?f lookup_table x)) m m'"
    and s: "{..< unat n} \<subseteq> {..< length (result_mem m)}"
    and ok: "\<forall>k < unat n. lookup_value rnd_s ?f lookup_table (arr_mem m ! k) \<noteq> None"
    by simp_all
  from ok i have "lookup_value rnd_s ?f lookup_table (arr_mem m ! i) \<noteq> None" by blast
  then obtain k where k: "lookup_index rnd_s (arr_mem m ! i) ?f = Some k" "0 \<le> k"
      "nat k < length lookup_table"
    unfolding lookup_value_index by blast
  from lookup_index_Some [OF k(1)] obtain y where y: "fmul rnd_s (arr_mem m ! i) ?f = Fin y"
    "k = (if 0 \<le> y then \<lfloor>y\<rfloor> else \<lceil>y\<rceil>)" by blast
  have neg: "- 1 < y"
  proof (cases "0 \<le> y")
    case True then show ?thesis by simp
  next
    case False
    with y(2) k(2) have "0 \<le> \<lceil>y\<rceil>" by simp
    then show ?thesis by linarith
  qed
  have kk: "k = (if 0 \<le> y then \<lfloor>y\<rfloor> else 0)"
  proof (cases "0 \<le> y")
    case True with y(2) show ?thesis by simp
  next
    case False
    with neg have "\<lceil>y\<rceil> = 0" by (simp add: ceiling_eq_iff)
    with False y(2) show ?thesis by simp
  qed
  from w s i have "result_mem m' ! i = the (lookup_value rnd_s ?f lookup_table (arr_mem m ! i))"
    by (auto simp: writes_only_def)
  with lookup_value_the [of rnd_s "arr_mem m ! i" ?f k lookup_table] k
  have "result_mem m' ! i = lookup_table ! nat k" by (simp add: lookup_index_def)
  with k y(1) kk neg
  show "\<exists>y k. fmul rnd_s (arr_mem m ! i) ?f = Fin y
          \<and> lookup_index rnd_s (arr_mem m ! i) ?f = Some k
          \<and> k = (if 0 \<le> y then \<lfloor>y\<rfloor> else 0) \<and> - 1 < y
          \<and> nat k < length lookup_table \<and> result_mem m' ! i = lookup_table ! nat k"
    by blast
next
  assume a: "unat n \<le> length (arr_mem m) \<and> unat n \<le> length (result_mem m)
       \<and> (\<forall>i < unat n. \<exists>k.
          lookup_index rnd_s (arr_mem m ! i) (lookup_factor rnd_d rnd_s lookup_table_size) = Some k
          \<and> 0 \<le> k \<and> nat k < length lookup_table)"
  show "\<exists>m'. sin_baseline_lookup_table rnd_d rnd_s n lookup_table lookup_table_size m = Some (m', NoReturnValue)"
  proof (rule lookup_table_total)
    show "unat n \<le> length (arr_mem m)" "unat n \<le> length (result_mem m)" using a by simp_all
  next
    fix k assume "k < unat n"
    with a have "\<exists>j. lookup_index rnd_s (arr_mem m ! k) (lookup_factor rnd_d rnd_s lookup_table_size) = Some j
          \<and> 0 \<le> j \<and> nat j < length lookup_table" by blast
    then show "lookup_value rnd_s (lookup_factor rnd_d rnd_s lookup_table_size) lookup_table (arr_mem m ! k) \<noteq> None"
      unfolding lookup_value_index .
  qed
qed

theorem lookup_table_indexing_witness:
  "unat (2 :: size_t) \<le> length (arr_mem (machine_of (Fin 0) [Fin (1 / 2), Fin (- 1 / 10)] [Fin 5, Fin 5]))
   \<and> unat (2 :: size_t) \<le> length (result_mem (machine_of (Fin 0) [Fin (1 / 2), Fin (- 1 / 10)] [Fin 5, Fin 5]))
   \<and> lookup_index Fin (Fin (1 / 2)) (lookup_factor Fin Fin 4) = Some 1
   \<and> lookup_index Fin (Fin (- 1 / 10)) (lookup_factor Fin Fin 4) = Some 0
   \<and> sin_baseline_lookup_table Fin Fin 2 [Fin 0, Fin 1, Fin 0, Fin (- 1)] 4
        (machine_of (Fin 0) [Fin (1 / 2), Fin (- 1 / 10)] [Fin 5, Fin 5]) \<noteq> None
   \<and> map_option (\<lambda>r. result_mem (fst r) ! 0)
        (sin_baseline_lookup_table Fin Fin 2 [Fin 0, Fin 1, Fin 0, Fin (- 1)] 4
          (machine_of (Fin 0) [Fin (1 / 2), Fin (- 1 / 10)] [Fin 5, Fin 5]))
       = Some ([Fin 0, Fin 1, Fin 0, Fin (- 1)] ! 1)
   \<and> map_option (\<lambda>r. result_mem (fst r) ! 1)
        (sin_baseline_lookup_table Fin Fin 2 [Fin 0, Fin 1, Fin 0, Fin (- 1)] 4
          (machine_of (Fin 0) [Fin (1 / 2), Fin (- 1 / 10)] [Fin 5, Fin 5]))
       = Some ([Fin 0, Fin 1, Fin 0, Fin (- 1)] ! 0)"
proof -
  let ?M = "machine_of (Fin 0) [Fin (1 / 2), Fin (- 1 / 10)] [Fin 5, Fin 5]"
  let ?T = "[Fin 0, Fin 1, Fin 0, Fin (- 1)]"
  have a: "unat (2 :: size_t) \<le> length (arr_mem ?M)" by (simp add: machine_of_def)
  have b: "unat (2 :: size_t) \<le> length (result_mem ?M)" by (simp add: machine_of_def)
  have c: "lookup_index Fin (Fin (1 / 2)) (lookup_factor Fin Fin 4) = Some 1"
    using code_index_at_half by (simp add: lookup_index_def)
  have c': "lookup_index Fin (Fin (- 1 / 10)) (lookup_factor Fin Fin 4) = Some 0"
    using code_index_negative by (simp add: lookup_index_def)
  have u: "unat (2 :: size_t) = Suc (Suc 0)" by simp
  have all2: "\<And>P. (\<forall>i < unat (2 :: size_t). P i) \<longleftrightarrow> P 0 \<and> P (Suc 0)"
    unfolding u by (auto simp: less_Suc_eq)
  have pre: "unat (2 :: size_t) \<le> length (arr_mem ?M) \<and> unat (2 :: size_t) \<le> length (result_mem ?M)
       \<and> (\<forall>i < unat (2 :: size_t). \<exists>k.
          lookup_index Fin (arr_mem ?M ! i) (lookup_factor Fin Fin 4) = Some k
          \<and> 0 \<le> k \<and> nat k < length ?T)"
    unfolding all2 using c c' by (simp add: machine_of_def)
  note t = lookup_table_indexing [of Fin Fin 2 ?T 4 ?M]
  from t pre obtain m' where run: "sin_baseline_lookup_table Fin Fin 2 ?T 4 ?M = Some (m', NoReturnValue)"
    by blast
  from lookup_table_indexing [of Fin Fin 2 ?T 4 ?M m' NoReturnValue] run
  have "\<forall>i < unat (2 :: size_t). \<exists>y k.
          fmul Fin (arr_mem ?M ! i) (lookup_factor Fin Fin 4) = Fin y
          \<and> lookup_index Fin (arr_mem ?M ! i) (lookup_factor Fin Fin 4) = Some k
          \<and> k = (if 0 \<le> y then \<lfloor>y\<rfloor> else 0) \<and> - 1 < y
          \<and> nat k < length ?T \<and> result_mem m' ! i = ?T ! nat k"
    by blast
  then have
    "\<exists>k. lookup_index Fin (arr_mem ?M ! 0) (lookup_factor Fin Fin 4) = Some k \<and> result_mem m' ! 0 = ?T ! nat k"
    "\<exists>k. lookup_index Fin (arr_mem ?M ! Suc 0) (lookup_factor Fin Fin 4) = Some k \<and> result_mem m' ! Suc 0 = ?T ! nat k"
    unfolding all2 by blast+
  with c c' have v: "result_mem m' ! 0 = ?T ! 1" "result_mem m' ! 1 = ?T ! 0"
    by (auto simp: machine_of_def)
  have d: "sin_baseline_lookup_table Fin Fin 2 ?T 4 ?M \<noteq> None" using run by simp
  have e: "map_option (\<lambda>r. result_mem (fst r) ! 0) (sin_baseline_lookup_table Fin Fin 2 ?T 4 ?M) = Some (?T ! 1)"
    using run v by simp
  have f: "map_option (\<lambda>r. result_mem (fst r) ! 1) (sin_baseline_lookup_table Fin Fin 2 ?T 4 ?M) = Some (?T ! 0)"
    using run v by simp
  show ?thesis by (intro conjI a b c c' d e f)
qed

text \<open>
  C5, counterexample: a table of four entries and the input \<open>0.5\<close>. The kernel reads entry
  \<open>(int)(0.5 * (4 / M_PI * 2)) = 1\<close>; the index of the claim, the floor of
  \<open>0.5 * 4 / (2\<pi>)\<close>, is 0, another entry. For the input \<open>-0.1\<close> the kernel's index is 0
  where the floor of the same product is \<open>-1\<close>.
\<close>

theorem lookup_scale_differs_from_spec:
  "output_of (sin_baseline_lookup_table Fin Fin 1 [Fin 0, Fin 1, Fin 0, Fin (- 1)] 4
        (machine_of (Fin 0) [Fin (1 / 2)] [Fin 0])) = Some [Fin 1]
   \<and> [Fin 0, Fin 1, Fin 0, Fin (- 1)] ! nat (spec_lookup_index 4 (1 / 2)) = Fin 0
   \<and> float_to_int (fmul Fin (Fin (1 / 2)) (lookup_factor Fin Fin 4)) = Some 1
   \<and> spec_lookup_index 4 (1 / 2) = 0
   \<and> float_to_int (fmul Fin (Fin (- 1 / 10)) (lookup_factor Fin Fin 4)) = Some 0
   \<and> \<lfloor>(- 1 / 10) * (real (unat (4 :: size_t)) / M_PI * 2)\<rfloor> = - 1"
  using lookup_table_at_half spec_index_at_half code_index_at_half code_index_negative by simp

end
